theory Spec2Isabelle
  imports Main "HOL-Library.Sublist" "HOL-Library.Char_ord" "HOL-Library.List_Lexorder"
begin

section \<open>The request-chaining engine of api/v1alpha1/httpmonitor_utils.go\<close>

text \<open>
  The file under verification builds HTTP requests from declarative request specs,
  substitutes variables into them, validates and parses the responses, runs the
  monitoring chain and the cleanup chain of a monitor, and starts and stops the
  periodic worker. Go strings are byte strings (\<open>string\<close>), Go's \<open>int\<close> status codes
  are \<open>int\<close> (they are only compared), a Go \<open>map[string][]string\<close> is an association
  list whose order is the order in which \<open>range\<close> visits the keys in one run (Go leaves
  that order open, so a statement for every list is a statement for every order).
\<close>

subsection \<open>Data\<close>

text \<open>
  Modelled from the spec: the declarations of \<open>Variable\<close>, \<open>VariableList\<close>,
  \<open>HttpRequest\<close> and \<open>HttpMonitor\<close> are not in the file. The fields below are the
  ones the file reads and writes, under their names there. \<open>FromTypeProvided\<close> is the
  only origin the file names; \<open>FromTypeHeader\<close> stands for the spec's "extracted from
  the response" and carries the name of the header the variable is read from (the
  spec's extraction rule "header name").
\<close>

datatype from_type = FromTypeProvided | FromTypeHeader string

record variable =
  Name :: string
  From :: from_type
  Value :: string

type_synonym Values = "(string \<times> string list) list"

record httpRequest =
  RequestName :: string
  Method :: string
  Url :: string
  Headers :: Values
  Body :: string
  QueryParams :: Values
  Timeout :: string
  ExpectedResponseCodes :: "int list"
  VariablesFromResponse :: "variable list"
  availableVariables :: "variable list"

text \<open>What the file uses of net/url's \<open>URL\<close>, net/http's \<open>Request\<close> and \<open>Response\<close>.
  \<open>Rest\<close> is the text of the URL before its query: scheme, authority and path as
  written.\<close>

record url =
  Rest :: string
  ForceQuery :: bool
  RawQuery :: string
  Fragment :: string

record request =
  req_Method :: string
  req_URL :: url
  req_Header :: Values
  req_Body :: string

record response =
  StatusCode :: int
  resp_Header :: Values
  resp_Body :: string

datatype error =
    ConfigurationError string
  | TransportError string
  | NilResponseError
  | UnexpectedStatusError int "int list"
  | ExtractionError string

subsection \<open>strings.Replacer\<close>

text \<open>
  A replacer is the list of its old/new pairs in argument order. The generic replacer
  of Go's strings package scans the input once from the left; at each position it takes
  the pair of highest priority (the earliest in argument order) whose old string is a
  prefix of the rest of the input, writes the new string and continues after the old
  one; with no such pair it copies one byte. A match of the empty old string is ignored
  at the position right after an empty match. The text written is never read again.
\<close>

type_synonym replacer = "(string \<times> string) list"

definition lookup :: "replacer \<Rightarrow> bool \<Rightarrow> string \<Rightarrow> (string \<times> string) option" where
  "lookup r ignoreRoot s =
     find (\<lambda>(old, new). prefix old s \<and> \<not> (ignoreRoot \<and> old = [])) r"

function replace_from :: "replacer \<Rightarrow> bool \<Rightarrow> string \<Rightarrow> string" where
  "replace_from r prevMatchEmpty s =
     (case lookup r prevMatchEmpty s of
        Some (old, new) \<Rightarrow> new @ replace_from r (old = []) (drop (length old) s)
      | None \<Rightarrow> (case s of [] \<Rightarrow> [] | c # cs \<Rightarrow> c # replace_from r False cs))"
  by pat_completeness auto
termination
  apply (relation "measure (\<lambda>(r, b, s). 2 * length s + (if b then 0 else 1))")
    apply simp
   apply (auto simp: lookup_def find_Some_iff prefix_def neq_Nil_conv)
  done

declare replace_from.simps [simp del]

definition Replace :: "replacer \<Rightarrow> string \<Rightarrow> string" where
  "Replace r s = replace_from r False s"

subsection \<open>Templating\<close>

definition placeholder :: "string \<Rightarrow> string" where
  "placeholder n = ''{{'' @ n @ ''}}''"

text \<open>
  Modelled from the spec: \<open>VariableList.newReplacer\<close> is not in the file. The spec
  gives \<open>{{name}}\<close>-style placeholders, each replaced by the variable's value by a
  single-pass multi-pattern literal replacer, and lets a later variable of the store
  shadow an earlier one of the same name; so the pairs are handed to the replacer
  latest first.
\<close>

definition newReplacer :: "variable list \<Rightarrow> replacer" where
  "newReplacer vs = map (\<lambda>v. (placeholder (Name v), Value v)) (rev vs)"

text \<open>
  Modelled from the spec: \<open>VariableList.clearValues\<close> is not in the file. The spec
  has it clear the extracted-variable state a previous run left on the request spec.
\<close>

definition clearValues :: "variable list \<Rightarrow> variable list" where
  "clearValues vs = map (\<lambda>v. v\<lparr>Value := []\<rparr>) vs"

subsection \<open>url.Values and http.Header\<close>

text \<open>\<open>Values.Add\<close>: \<open>v[key] = append(v[key], value)\<close>.\<close>

fun Add :: "Values \<Rightarrow> string \<Rightarrow> string \<Rightarrow> Values" where
  "Add [] key x = [(key, [x])]"
| "Add ((k, xs) # m) key x = (if k = key then (k, xs @ [x]) # m else (k, xs) # Add m key x)"

text \<open>
  \<open>Header.Add\<close> stores a value under \<open>textproto.CanonicalMIMEHeaderKey\<close> of its key:
  a key of header-field (token) bytes only gets its first letter and every letter after
  a hyphen in upper case and every other letter in lower case; any other key is kept.
\<close>

definition validHeaderFieldByte :: "char \<Rightarrow> bool" where
  "validHeaderFieldByte c =
     (let n = (of_char c :: nat) in
        (48 \<le> n \<and> n \<le> 57) \<or> (65 \<le> n \<and> n \<le> 90) \<or> (97 \<le> n \<and> n \<le> 122) \<or>
        n \<in> set [33, 35, 36, 37, 38, 39, 42, 43, 45, 46, 94, 95, 96, 124, 126])"

definition canonByte :: "bool \<Rightarrow> char \<Rightarrow> char" where
  "canonByte upper c =
     (let n = (of_char c :: nat) in
        if upper \<and> 97 \<le> n \<and> n \<le> 122 then char_of (n - 32)
        else if \<not> upper \<and> 65 \<le> n \<and> n \<le> 90 then char_of (n + 32)
        else c)"

fun canonBytes :: "bool \<Rightarrow> string \<Rightarrow> string" where
  "canonBytes upper [] = []"
| "canonBytes upper (c # cs) =
     (let c' = canonByte upper c in c' # canonBytes (c' = CHR ''-'') cs)"

definition CanonicalMIMEHeaderKey :: "string \<Rightarrow> string" where
  "CanonicalMIMEHeaderKey s = (if list_all validHeaderFieldByte s then canonBytes True s else s)"

definition HeaderAdd :: "Values \<Rightarrow> string \<Rightarrow> string \<Rightarrow> Values" where
  "HeaderAdd h key x = Add h (CanonicalMIMEHeaderKey key) x"

subsection \<open>replaceQueryParams and replaceHeader\<close>

definition replaceQueryParams :: "Values \<Rightarrow> replacer \<Rightarrow> Values" where
  "replaceQueryParams v replacer =
     (if length v = 0 then v
      else fold (\<lambda>(key, vals) newValues.
                   fold (\<lambda>x nv. Add nv key (Replace replacer x)) vals newValues) v [])"

definition replaceHeader :: "Values \<Rightarrow> replacer \<Rightarrow> Values" where
  "replaceHeader v replacer =
     (if length v = 0 then v
      else fold (\<lambda>(key, vals) newHeaders.
                   fold (\<lambda>x nh. HeaderAdd nh key (Replace replacer x)) vals newHeaders) v [])"

subsection \<open>Values.Encode, url.Parse and http.NewRequest\<close>

text \<open>
  \<open>url.QueryEscape\<close> keeps letters, digits and \<open>- _ . ~\<close>, writes a space as \<open>+\<close>
  and every other byte as \<open>%\<close> and two upper-case hexadecimal digits. \<open>Values.Encode\<close>
  writes \<open>key=value\<close> for every value of every key, the keys sorted bytewise, joined
  by \<open>&\<close>; the empty map encodes to the empty string.
\<close>

definition shouldEscape :: "char \<Rightarrow> bool" where
  "shouldEscape c =
     (let n = (of_char c :: nat) in
        \<not> ((48 \<le> n \<and> n \<le> 57) \<or> (65 \<le> n \<and> n \<le> 90) \<or> (97 \<le> n \<and> n \<le> 122) \<or>
           n \<in> set [45, 95, 46, 126]))"

definition upperhex :: "nat \<Rightarrow> char" where
  "upperhex n = ''0123456789ABCDEF'' ! (n mod 16)"

definition QueryEscape :: "string \<Rightarrow> string" where
  "QueryEscape s =
     concat (map (\<lambda>c. if c = CHR '' '' then ''+''
                       else if shouldEscape c
                         then [CHR ''%'', upperhex (of_char c div 16), upperhex (of_char c mod 16)]
                       else [c]) s)"

fun join :: "string \<Rightarrow> string list \<Rightarrow> string" where
  "join sep [] = []"
| "join sep [x] = x"
| "join sep (x # y # ys) = x @ sep @ join sep (y # ys)"

definition Get_all :: "Values \<Rightarrow> string \<Rightarrow> string list" where
  "Get_all v k = (case map_of v k of None \<Rightarrow> [] | Some vs \<Rightarrow> vs)"

definition Encode :: "Values \<Rightarrow> string" where
  "Encode v =
     (if length v = 0 then []
      else join ''&''
             (concat (map (\<lambda>k. map (\<lambda>x. QueryEscape k @ ''='' @ QueryEscape x) (Get_all v k))
                          (sort (map fst v)))))"

text \<open>
  \<open>url.Parse\<close>, as far as the file depends on it: the fragment is cut off at the first
  \<open>#\<close>; a control byte is refused; the scheme is split off (\<open>getScheme\<close>); the query is
  cut off at the first \<open>?\<close> (a lone final \<open>?\<close> sets \<open>ForceQuery\<close>); a first path segment
  with a colon is refused. The scheme, authority and path are kept as written in
  \<open>Rest\<close>: their further parsing, and the errors of net/url for a malformed authority or
  percent-escape, play no part in what is proved here.
\<close>

definition cut :: "char \<Rightarrow> string \<Rightarrow> string \<times> string \<times> bool" where
  "cut sep s = (takeWhile (\<lambda>c. c \<noteq> sep) s, drop 1 (dropWhile (\<lambda>c. c \<noteq> sep) s), sep \<in> set s)"

definition stringContainsCTLByte :: "string \<Rightarrow> bool" where
  "stringContainsCTLByte s = list_ex (\<lambda>c. (of_char c :: nat) < 32 \<or> (of_char c :: nat) = 127) s"

definition isLetter :: "char \<Rightarrow> bool" where
  "isLetter c = (let n = (of_char c :: nat) in (65 \<le> n \<and> n \<le> 90) \<or> (97 \<le> n \<and> n \<le> 122))"

definition isSchemeByte :: "char \<Rightarrow> bool" where
  "isSchemeByte c = (let n = (of_char c :: nat) in (48 \<le> n \<and> n \<le> 57) \<or> n \<in> set [43, 45, 46])"

fun getScheme_from :: "string \<Rightarrow> nat \<Rightarrow> string \<Rightarrow> error + (string \<times> string)" where
  "getScheme_from rawURL i [] = Inr ([], rawURL)"
| "getScheme_from rawURL i (c # cs) =
     (if isLetter c then getScheme_from rawURL (Suc i) cs
      else if isSchemeByte c
        then (if i = 0 then Inr ([], rawURL) else getScheme_from rawURL (Suc i) cs)
      else if c = CHR '':''
        then (if i = 0 then Inl (ConfigurationError ''missing protocol scheme'')
              else Inr (take i rawURL, cs))
      else Inr ([], rawURL))"

definition getScheme :: "string \<Rightarrow> error + (string \<times> string)" where
  "getScheme rawURL = getScheme_from rawURL 0 rawURL"

definition url_Parse :: "string \<Rightarrow> error + url" where
  "url_Parse rawURL =
     (case cut CHR ''#'' rawURL of (u, frag, _) \<Rightarrow>
        if stringContainsCTLByte u
          then Inl (ConfigurationError ''net/url: invalid control character in URL'')
        else if u = ''*''
          then Inr \<lparr>Rest = ''*'', ForceQuery = False, RawQuery = [], Fragment = frag\<rparr>
        else
          (case getScheme u of
             Inl e \<Rightarrow> Inl e
           | Inr (scheme, rest) \<Rightarrow>
               (case (if suffix ''?'' rest \<and> count_list rest CHR ''?'' = 1
                        then (butlast rest, True, [])
                      else (case cut CHR ''?'' rest of (a, b, _) \<Rightarrow> (a, False, b)))
                of (path, force, query) \<Rightarrow>
                  if \<not> prefix ''/'' path \<and> scheme = [] \<and>
                       CHR '':'' \<in> set (takeWhile (\<lambda>c. c \<noteq> CHR ''/'') path)
                    then Inl (ConfigurationError ''first path segment in URL cannot contain colon'')
                  else Inr \<lparr>Rest = (if scheme = [] then [] else scheme @ '':'') @ path,
                            ForceQuery = force, RawQuery = query, Fragment = frag\<rparr>)))"

text \<open>\<open>URL.String\<close>: the query follows a \<open>?\<close> when it is forced or not empty, the fragment
  a \<open>#\<close> when it is not empty.\<close>

definition URL_String :: "url \<Rightarrow> string" where
  "URL_String u =
     Rest u @ (if ForceQuery u \<or> RawQuery u \<noteq> [] then ''?'' @ RawQuery u else [])
            @ (if Fragment u \<noteq> [] then ''#'' @ Fragment u else [])"

text \<open>\<open>http.NewRequest\<close>: the empty method stands for GET, a method must be a token, the
  URL must parse; the new request has no header.\<close>

definition validMethod :: "string \<Rightarrow> bool" where
  "validMethod m = (length m > 0 \<and> list_all validHeaderFieldByte m)"

definition NewRequest :: "string \<Rightarrow> string \<Rightarrow> string \<Rightarrow> error + request" where
  "NewRequest method rawURL body =
     (let m = (if method = [] then ''GET'' else method) in
        if \<not> validMethod m then Inl (ConfigurationError ''net/http: invalid method'')
        else (case url_Parse rawURL of
                Inl e \<Rightarrow> Inl e
              | Inr u \<Rightarrow> Inr \<lparr>req_Method = m, req_URL = u, req_Header = [], req_Body = body\<rparr>))"

subsection \<open>BuildRequest\<close>

definition BuildRequest :: "httpRequest \<Rightarrow> error + request" where
  "BuildRequest r =
     (let replacer = newReplacer (availableVariables r);
          finalUrl = Replace replacer (Url r);
          body = Replace replacer (Body r);
          query = replaceQueryParams (QueryParams r) replacer;
          header = replaceHeader (Headers r) replacer
      in case NewRequest (Method r) finalUrl body of
           Inl err \<Rightarrow> Inl err
         | Inr req \<Rightarrow>
             Inr (req\<lparr>req_Header := header,
                      req_URL := (req_URL req)\<lparr>RawQuery := Encode query\<rparr>\<rparr>))"

subsection \<open>containsInt, handleResponse and Do\<close>

fun containsInt :: "int \<Rightarrow> int list \<Rightarrow> bool" where
  "containsInt needle [] = False"
| "containsInt needle (val # haystay) = (if val = needle then True else containsInt needle haystay)"

text \<open>
  The surroundings of a request: \<open>time.ParseDuration\<close> (an error text or the duration in
  nanoseconds), the HTTP client over a world \<open>'w\<close> that a call may change (the servers'
  state, the clock: a timeout is a transport error), and \<open>Variable.ParseFromResponse\<close>,
  which is not in the file: it returns the variable as the call left it and the error
  text, if it failed. The response is a value: what one rule reads of it does not change
  what the next rule reads.
\<close>

record 'w env =
  ParseDuration :: "string \<Rightarrow> string + int"
  client_Do :: "'w \<Rightarrow> request \<Rightarrow> int \<Rightarrow> (string + response) \<times> 'w"
  ParseFromResponse :: "variable \<Rightarrow> response \<Rightarrow> variable \<times> string option"

text \<open>The loop of \<open>handleResponse\<close> over the variables: it stops at the first error; the
  variables parsed before it keep their new values.\<close>

fun parseVariables ::
  "(variable \<Rightarrow> response \<Rightarrow> variable \<times> string option) \<Rightarrow> response \<Rightarrow> variable list
     \<Rightarrow> error option \<times> variable list" where
  "parseVariables parse resp [] = (None, [])"
| "parseVariables parse resp (v # vs) =
     (case parse v resp of
        (v', Some msg) \<Rightarrow> (Some (ExtractionError msg), v' # vs)
      | (v', None) \<Rightarrow>
          (case parseVariables parse resp vs of (err, vs') \<Rightarrow> (err, v' # vs')))"

definition handleResponse ::
  "'w env \<Rightarrow> httpRequest \<Rightarrow> response option \<Rightarrow> error option \<times> httpRequest" where
  "handleResponse env r resp =
     (case resp of
        None \<Rightarrow> (Some NilResponseError, r)
      | Some rsp \<Rightarrow>
          if \<not> containsInt (StatusCode rsp) (ExpectedResponseCodes r)
            then (Some (UnexpectedStatusError (StatusCode rsp) (ExpectedResponseCodes r)), r)
          else if length (VariablesFromResponse r) = 0 then (None, r)
          else (case parseVariables (ParseFromResponse env) rsp (VariablesFromResponse r) of
                  (err, vs) \<Rightarrow> (err, r\<lparr>VariablesFromResponse := vs\<rparr>)))"

definition Do :: "'w env \<Rightarrow> 'w \<Rightarrow> httpRequest \<Rightarrow> error option \<times> httpRequest \<times> 'w" where
  "Do env w r =
     (case BuildRequest r of
        Inl err \<Rightarrow> (Some err, r, w)
      | Inr req \<Rightarrow>
          (case ParseDuration env (Timeout r) of
             Inl msg \<Rightarrow> (Some (ConfigurationError msg), r, w)
           | Inr timeoutDuration \<Rightarrow>
               (case client_Do env w req timeoutDuration of
                  (Inl msg, w') \<Rightarrow> (Some (TransportError msg), r, w')
                | (Inr resp, w') \<Rightarrow>
                    (case handleResponse env r (Some resp) of (err, r') \<Rightarrow> (err, r', w')))))"

subsection \<open>executeRequests\<close>

record httpMonitor =
  Namespace :: string
  MonitorName :: string
  Variables :: "(string \<times> string) list"
  Requests :: "httpRequest list"
  Cleanup :: "httpRequest list"
  Period :: int

datatype log_entry =
    Info string string
  | Error error string string

text \<open>
  The state of one call of \<open>executeRequests\<close>: the world, the local variable
  \<open>availableVariables\<close>, what was logged, and the calls of \<open>Do\<close> made by the first
  loop (\<open>executed\<close>) and by the cleanup loop (\<open>cleaned\<close>), in order: each with the
  request as \<open>Do\<close> left it (the store attached to it, its variables as parsed) and the
  error \<open>Do\<close> returned. The variables a request parses are objects of that request
  alone, so the values the store holds are those appended.
\<close>

record 'w tick =
  world :: 'w
  available :: "variable list"
  logged :: "log_entry list"
  executed :: "(httpRequest \<times> error option) list"
  cleaned :: "(httpRequest \<times> error option) list"

definition builtin :: variable where
  "builtin = \<lparr>Name = ''random-8'', From = FromTypeProvided, Value = ''12345678''\<rparr>"

definition seed :: "httpMonitor \<Rightarrow> variable list" where
  "seed h =
     fold (\<lambda>(key, val) availableVariables.
             availableVariables @ [\<lparr>Name = key, From = FromTypeProvided, Value = val\<rparr>])
          (Variables h) [builtin]"

definition attach :: "httpRequest \<Rightarrow> variable list \<Rightarrow> httpRequest" where
  "attach httpRequest availableVars =
     httpRequest\<lparr>VariablesFromResponse := clearValues (VariablesFromResponse httpRequest),
                 availableVariables := availableVars\<rparr>"

fun runRequests :: "'w env \<Rightarrow> httpRequest list \<Rightarrow> 'w tick \<Rightarrow> 'w tick" where
  "runRequests env [] t = t"
| "runRequests env (httpRequest # rest) t =
     (case Do env (world t) (attach httpRequest (available t)) of
        (err, r, w) \<Rightarrow>
          (let t1 = t\<lparr>world := w,
                      logged := logged t @ [Info (RequestName httpRequest) ''executing request''],
                      executed := executed t @ [(r, err)]\<rparr>
           in case err of
                Some e \<Rightarrow>
                  t1\<lparr>logged := logged t1 @
                       [Error e ''failed to complete request'' (RequestName httpRequest)]\<rparr>
              | None \<Rightarrow>
                  runRequests env rest
                    (if length (VariablesFromResponse r) > 0
                       then t1\<lparr>available := available t1 @ VariablesFromResponse r\<rparr>
                     else t1)))"

fun runCleanup :: "'w env \<Rightarrow> httpRequest list \<Rightarrow> 'w tick \<Rightarrow> 'w tick" where
  "runCleanup env [] t = t"
| "runCleanup env (httpRequest # rest) t =
     (case Do env (world t) (attach httpRequest (available t)) of
        (err, r, w) \<Rightarrow>
          (let t1 = t\<lparr>world := w,
                      logged := logged t @
                        [Info (RequestName httpRequest) ''executing cleanup request''],
                      cleaned := cleaned t @ [(r, err)]\<rparr>
           in runCleanup env rest
                (case err of
                   Some e \<Rightarrow>
                     t1\<lparr>logged := logged t1 @
                          [Error e ''failed to complete cleanup request''
                             (RequestName httpRequest)]\<rparr>
                 | None \<Rightarrow> t1)))"

definition start_tick :: "httpMonitor \<Rightarrow> 'w \<Rightarrow> 'w tick" where
  "start_tick h w = \<lparr>world = w, available = seed h, logged = [], executed = [], cleaned = []\<rparr>"

definition executeRequests :: "'w env \<Rightarrow> httpMonitor \<Rightarrow> 'w \<Rightarrow> 'w tick" where
  "executeRequests env h w =
     runCleanup env (Cleanup h) (runRequests env (Requests h) (start_tick h w))"

subsection \<open>Start and Stop\<close>

text \<open>
  The scheduler's fields of the monitor: the period, \<open>h.ticker\<close> (\<open>None\<close> is nil) and
  the counter of the wait group \<open>h.stopped\<close>. A ticker is active until stopped; its
  channel holds at most one tick; \<open>Ticker.Stop\<close> turns the ticker off and does not close
  the channel, and nothing else in the file can close it (it is receive-only).
  \<open>time.NewTicker\<close> panics on a period that is not positive, and a method call through
  the nil ticker panics.
\<close>

record ticker =
  active :: bool
  buffered :: nat
  closed :: bool

datatype worker = NotLaunched | AwaitingTick | InTick | Exited

record scheduler =
  period :: int
  ticker :: "ticker option"
  stopped :: "nat option"
  worker :: worker

definition Start :: "scheduler \<Rightarrow> string + scheduler" where
  "Start h =
     (if ticker h \<noteq> None then Inl ''tried to start an already started HttpMonitor''
      else if period h \<le> 0 then Inl ''non-positive interval for NewTicker''
      else Inr (h\<lparr>ticker := Some \<lparr>active = True, buffered = 0, closed = False\<rparr>,
                   stopped := Some 1,
                   worker := AwaitingTick\<rparr>))"

text \<open>\<open>Stop\<close> is two statements: \<open>h.ticker.Stop()\<close>, then \<open>h.stopped.Wait()\<close>, which
  returns once the counter is zero.\<close>

definition Stop_ticker :: "scheduler \<Rightarrow> string + scheduler" where
  "Stop_ticker h =
     (case ticker h of
        None \<Rightarrow> Inl ''invalid memory address or nil pointer dereference''
      | Some t \<Rightarrow> Inr (h\<lparr>ticker := Some (t\<lparr>active := False\<rparr>)\<rparr>))"

definition Wait_returns :: "scheduler \<Rightarrow> bool" where
  "Wait_returns h = (stopped h = Some 0)"

text \<open>
  The monitor with the goroutine that calls \<open>Start\<close> and \<open>Stop\<close> and the worker
  goroutine that \<open>Start\<close> launches. An event is one step of one of them or of the
  runtime's timer; \<open>step\<close> is \<open>None\<close> when the event cannot happen in the state.
  The worker's \<open>range\<close> loop takes a tick from the channel when there is one and ends
  only on a closed, empty channel; then the deferred \<open>Done\<close> runs.
\<close>

datatype caller = Ready | InStopWait | StopReturned | Panicked string

datatype event = CallStart | CallStop | StopReturns | TimerFires | WorkerReceives | TickDone | RangeEnds

record system =
  mon :: scheduler
  caller :: caller

definition can_call :: "system \<Rightarrow> bool" where
  "can_call s = (caller s = Ready \<or> caller s = StopReturned)"

fun step :: "event \<Rightarrow> system \<Rightarrow> system option" where
  "step CallStart s =
     (if can_call s
        then (case Start (mon s) of
                Inl msg \<Rightarrow> Some (s\<lparr>caller := Panicked msg\<rparr>)
              | Inr h \<Rightarrow> Some (s\<lparr>mon := h, caller := Ready\<rparr>))
      else None)"
| "step CallStop s =
     (if can_call s
        then (case Stop_ticker (mon s) of
                Inl msg \<Rightarrow> Some (s\<lparr>caller := Panicked msg\<rparr>)
              | Inr h \<Rightarrow> Some (s\<lparr>mon := h, caller := InStopWait\<rparr>))
      else None)"
| "step StopReturns s =
     (if caller s = InStopWait \<and> Wait_returns (mon s) then Some (s\<lparr>caller := StopReturned\<rparr>)
      else None)"
| "step TimerFires s =
     (case ticker (mon s) of
        Some t \<Rightarrow>
          (if active t \<and> \<not> closed t
             then Some (s\<lparr>mon := (mon s)\<lparr>ticker := Some (t\<lparr>buffered := 1\<rparr>)\<rparr>\<rparr>)
           else None)
      | None \<Rightarrow> None)"
| "step WorkerReceives s =
     (case ticker (mon s) of
        Some t \<Rightarrow>
          (if worker (mon s) = AwaitingTick \<and> buffered t > 0
             then Some (s\<lparr>mon := (mon s)\<lparr>ticker := Some (t\<lparr>buffered := buffered t - 1\<rparr>),
                                          worker := InTick\<rparr>\<rparr>)
           else None)
      | None \<Rightarrow> None)"
| "step TickDone s =
     (if worker (mon s) = InTick then Some (s\<lparr>mon := (mon s)\<lparr>worker := AwaitingTick\<rparr>\<rparr>)
      else None)"
| "step RangeEnds s =
     (case ticker (mon s) of
        Some t \<Rightarrow>
          (if worker (mon s) = AwaitingTick \<and> closed t \<and> buffered t = 0
             then Some (s\<lparr>mon := (mon s)\<lparr>worker := Exited,
                                          stopped := map_option (\<lambda>n. n - 1) (stopped (mon s))\<rparr>\<rparr>)
           else None)
      | None \<Rightarrow> None)"

fun run :: "event list \<Rightarrow> system \<Rightarrow> system option" where
  "run [] s = Some s"
| "run (e # es) s = (case step e s of None \<Rightarrow> None | Some s' \<Rightarrow> run es s')"

definition new_monitor :: "int \<Rightarrow> system" where
  "new_monitor d =
     \<lparr>mon = \<lparr>period = d, ticker = None, stopped = None, worker = NotLaunched\<rparr>, caller = Ready\<rparr>"

section \<open>Scenarios\<close>

text \<open>
  Modelled from the spec: \<open>Variable.ParseFromResponse\<close> is not in the file. The spec
  has an extraction rule pull a named variable out of a response, for instance by header
  name, and fail when it cannot locate its value. Here a variable read from a header
  takes the first value of that header (looked up as \<open>Header.Get\<close> does) and fails when
  there is none; a provided variable has nothing to parse.
\<close>

definition parseHeader :: "variable \<Rightarrow> response \<Rightarrow> variable \<times> string option" where
  "parseHeader v resp =
     (case From v of
        FromTypeProvided \<Rightarrow> (v, None)
      | FromTypeHeader h \<Rightarrow>
          (case Get_all (resp_Header resp) (CanonicalMIMEHeaderKey h) of
             [] \<Rightarrow> (v, Some (''no header '' @ h))
           | x # _ \<Rightarrow> (v\<lparr>Value := x\<rparr>, None)))"

text \<open>A server that answers 500 under \<open>/fail\<close>, cannot be reached under \<open>/down\<close>, and
  answers 200 with the headers \<open>X-Token: abc123\<close> and \<open>X-Id: 42\<close> anywhere else. The
  world is the list of the requests sent so far.\<close>

definition ok_response :: response where
  "ok_response =
     \<lparr>StatusCode = 200, resp_Header = [(''X-Token'', [''abc123'']), (''X-Id'', [''42''])],
      resp_Body = []\<rparr>"

definition server :: "request \<Rightarrow> string + response" where
  "server req =
     (if Rest (req_URL req) = ''/down'' then Inl ''connection refused''
      else if Rest (req_URL req) = ''/fail''
        then Inr \<lparr>StatusCode = 500, resp_Header = [], resp_Body = []\<rparr>
      else Inr ok_response)"

definition env_net :: "request list env" where
  "env_net =
     \<lparr>ParseDuration = (\<lambda>s. if s = ''1s'' then Inr 1000000000 else Inl ''time: invalid duration''),
      client_Do = (\<lambda>w req d. (server req, w @ [req])),
      ParseFromResponse = parseHeader\<rparr>"

definition get :: "string \<Rightarrow> string \<Rightarrow> variable list \<Rightarrow> httpRequest" where
  "get name u rules =
     \<lparr>RequestName = name, Method = ''GET'', Url = u, Headers = [], Body = [],
      QueryParams = [], Timeout = ''1s'', ExpectedResponseCodes = [200],
      VariablesFromResponse = rules, availableVariables = []\<rparr>"

definition header_rule :: "string \<Rightarrow> string \<Rightarrow> variable" where
  "header_rule n h = \<lparr>Name = n, From = FromTypeHeader h, Value = []\<rparr>"

definition monitor :: "httpRequest list \<Rightarrow> httpRequest list \<Rightarrow> httpMonitor" where
  "monitor reqs cleanup =
     \<lparr>Namespace = ''default'', MonitorName = ''m'', Variables = [(''host'', ''example.org'')],
      Requests = reqs, Cleanup = cleanup, Period = 60000000000\<rparr>"

definition not_found :: response where
  "not_found = \<lparr>StatusCode = 404, resp_Header = [], resp_Body = []\<rparr>"

text \<open>The login scenario: A reads the header \<open>X-Token\<close> into the variable \<open>token\<close>,
  B uses the variable in its URL; in the second run B names it as a query parameter.\<close>

definition login_run :: "request list tick" where
  "login_run =
     executeRequests env_net
       (monitor [get ''A'' ''/login'' [header_rule ''token'' ''X-Token''],
                 get ''B'' ''/data?auth={{token}}'' []] []) []"

definition login_run_params :: "request list tick" where
  "login_run_params =
     executeRequests env_net
       (monitor [get ''A'' ''/login'' [header_rule ''token'' ''X-Token''],
                 (get ''B'' ''/data'' [])\<lparr>QueryParams := [(''auth'', [''{{token}}''])]\<rparr>] []) []"

text \<open>Runs of the server scenario: a monitoring chain that fails at its second request
  by status, one that fails there by extraction, a cleanup chain whose second request
  fails, and a monitoring chain followed by a cleanup chain that extracts.\<close>

definition login :: httpRequest where
  "login = get ''A'' ''/login'' [header_rule ''token'' ''X-Token'']"

definition page :: httpRequest where
  "page = get ''P'' ''/page''
            [header_rule ''id'' ''X-Id'', header_rule ''missing'' ''X-Missing'',
             header_rule ''again'' ''X-Token'']"

definition run_stop :: "request list tick" where
  "run_stop =
     executeRequests env_net
       (monitor [login, get ''F'' ''/fail'' [header_rule ''id'' ''X-Id''],
                 get ''B'' ''/data?auth={{token}}'' []]
                [get ''Z'' ''/logout'' []]) []"

definition run_extract :: "request list tick" where
  "run_extract =
     executeRequests env_net
       (monitor [login, page, get ''B'' ''/data?auth={{token}}'' []]
                [get ''Z'' ''/logout'' []]) []"

definition run_cleanup :: "request list tick" where
  "run_cleanup =
     executeRequests env_net
       (monitor [] [login, get ''F'' ''/fail'' [], get ''B'' ''/data?auth={{token}}'' []]) []"

definition run_both :: "request list tick" where
  "run_both =
     executeRequests env_net
       (monitor [get ''I'' ''/item'' [header_rule ''id'' ''X-Id'']]
                [login, get ''B'' ''/data?auth={{token}}'' []]) []"

definition host_var :: variable where
  "host_var = \<lparr>Name = ''host'', From = FromTypeProvided, Value = ''example.org''\<rparr>"

definition token_var :: variable where
  "token_var = \<lparr>Name = ''token'', From = FromTypeHeader ''X-Token'', Value = ''abc123''\<rparr>"

definition id_var :: variable where
  "id_var = \<lparr>Name = ''id'', From = FromTypeHeader ''X-Id'', Value = ''42''\<rparr>"

text \<open>A store whose variable \<open>a\<close> has a value that is itself a placeholder, and a
  schedule of the scheduler: start, a tick begins, \<open>Stop\<close> is called at once, the tick
  completes.\<close>

definition ab_store :: "variable list" where
  "ab_store = [\<lparr>Name = ''a'', From = FromTypeProvided, Value = ''{{b}}''\<rparr>,
               \<lparr>Name = ''b'', From = FromTypeProvided, Value = ''X''\<rparr>]"

definition stop_schedule :: "event list" where
  "stop_schedule = [CallStart, TimerFires, WorkerReceives, CallStop, TickDone]"

section \<open>Notions of the statements\<close>

text \<open>
  What a call of \<open>Do\<close> left in a request's variables, whether the call succeeded, and
  that a request is a given request spec up to its variables and its attached store.
\<close>

definition extracted :: "httpRequest \<times> error option \<Rightarrow> variable list" where
  "extracted a = VariablesFromResponse (fst a)"

definition succeeded :: "httpRequest \<times> error option \<Rightarrow> bool" where
  "succeeded a = (snd a = None)"

definition same_spec :: "httpRequest \<Rightarrow> httpRequest \<Rightarrow> bool" where
  "same_spec q r =
     (r\<lparr>VariablesFromResponse := [], availableVariables := []\<rparr>
        = q\<lparr>VariablesFromResponse := [], availableVariables := []\<rparr>)"

text \<open>
  \<open>stop_on_error store reqs new\<close>: the calls \<open>new\<close> are those of the requests \<open>reqs\<close> in
  order from the first, each with the store \<open>store\<close> extended by what the calls before
  it extracted; a call that failed is the last one, and calls are missing only behind a
  failed one. \<open>run_all store reqs new lg\<close>: the calls \<open>new\<close> are those of all the requests
  \<open>reqs\<close> in order, each with the store \<open>store\<close>, and every failure is in the log \<open>lg\<close>.
\<close>

definition stop_on_error ::
  "variable list \<Rightarrow> httpRequest list \<Rightarrow> (httpRequest \<times> error option) list \<Rightarrow> bool" where
  "stop_on_error store reqs new =
     (length new \<le> length reqs
      \<and> (\<forall>i<length new.
            same_spec (reqs ! i) (fst (new ! i))
            \<and> availableVariables (fst (new ! i)) = store @ concat (map extracted (take i new))
            \<and> (snd (new ! i) \<noteq> None \<longrightarrow> Suc i = length new))
      \<and> (length new < length reqs \<longrightarrow> new \<noteq> [] \<and> snd (last new) \<noteq> None))"

definition run_all ::
  "variable list \<Rightarrow> httpRequest list \<Rightarrow> (httpRequest \<times> error option) list
     \<Rightarrow> log_entry list \<Rightarrow> bool" where
  "run_all store reqs new lg =
     (length new = length reqs
      \<and> (\<forall>i<length reqs.
            same_spec (reqs ! i) (fst (new ! i))
            \<and> availableVariables (fst (new ! i)) = store
            \<and> (\<forall>e. snd (new ! i) = Some e \<longrightarrow>
                   Error e ''failed to complete cleanup request'' (RequestName (reqs ! i))
                     \<in> set lg)))"

text \<open>The values a substituted map holds under the key \<open>K\<close>: those of the entries
  whose key \<open>g\<close> sends to \<open>K\<close>, each substituted by \<open>f\<close>, in the order of the entries.\<close>

definition substituted ::
  "(string \<Rightarrow> string) \<Rightarrow> (string \<Rightarrow> string) \<Rightarrow> Values \<Rightarrow> string \<Rightarrow> string list" where
  "substituted g f v K =
     concat (map (\<lambda>(key, vals). map f vals) (filter (\<lambda>(key, vals). g key = K) v))"

text \<open>A name with no brace in it.\<close>

definition braceless :: "string \<Rightarrow> bool" where
  "braceless n = (CHR ''{'' \<notin> set n \<and> CHR ''}'' \<notin> set n)"

text \<open>
  Two properties of a state of the scheduler that every step keeps: the wait group's
  counter is not zero, the ticker's channel is not closed and \<open>Stop\<close> has not returned;
  and the worker has been launched exactly when there is a ticker.
\<close>

definition never_closed :: "system \<Rightarrow> bool" where
  "never_closed s =
     (stopped (mon s) \<noteq> Some 0
      \<and> (case ticker (mon s) of None \<Rightarrow> True | Some t \<Rightarrow> \<not> closed t)
      \<and> caller s \<noteq> StopReturned)"

definition started_has_ticker :: "system \<Rightarrow> bool" where
  "started_has_ticker s =
     ((worker (mon s) = NotLaunched) = (ticker (mon s) = None))"

section \<open>Properties\<close>

subsection \<open>Status validation\<close>

lemma containsInt_set: "containsInt needle haystay = (needle \<in> set haystay)"
  by (induction haystay) auto

lemma parseVariables_error:
  "fst (parseVariables parse resp vs) = Some e \<Longrightarrow> \<exists>msg. e = ExtractionError msg"
  by (induction vs) (auto split: prod.splits option.splits)

text \<open>
  Claim C5. For a response that is there, \<open>handleResponse\<close> fails with the
  unexpected-status error exactly when the status code is not a member of the accepted
  codes (\<open>containsInt\<close> is list membership, not a range check); the error then carries the
  actual code and the accepted codes, and the request is left as it was. With a member
  code the outcome is that of parsing the variables.
\<close>

theorem C5_status_validation:
  "((\<exists>c cs. fst (handleResponse env r (Some resp)) = Some (UnexpectedStatusError c cs))
      = (StatusCode resp \<notin> set (ExpectedResponseCodes r)))
   \<and> (StatusCode resp \<notin> set (ExpectedResponseCodes r) \<longrightarrow>
        handleResponse env r (Some resp)
          = (Some (UnexpectedStatusError (StatusCode resp) (ExpectedResponseCodes r)), r))
   \<and> (StatusCode resp \<in> set (ExpectedResponseCodes r) \<longrightarrow>
        fst (handleResponse env r (Some resp))
          = fst (parseVariables (ParseFromResponse env) resp (VariablesFromResponse r)))
   \<and> containsInt (StatusCode resp) (ExpectedResponseCodes r)
        = (StatusCode resp \<in> set (ExpectedResponseCodes r))"
proof -
  have a: "StatusCode resp \<notin> set (ExpectedResponseCodes r) \<Longrightarrow>
        handleResponse env r (Some resp)
          = (Some (UnexpectedStatusError (StatusCode resp) (ExpectedResponseCodes r)), r)"
    by (simp add: handleResponse_def containsInt_set)
  have b: "StatusCode resp \<in> set (ExpectedResponseCodes r) \<Longrightarrow>
        fst (handleResponse env r (Some resp))
          = fst (parseVariables (ParseFromResponse env) resp (VariablesFromResponse r))"
    by (simp add: handleResponse_def containsInt_set split: prod.splits)
  have c: "\<not> (StatusCode resp \<in> set (ExpectedResponseCodes r) \<and>
        (\<exists>c cs. fst (handleResponse env r (Some resp)) = Some (UnexpectedStatusError c cs)))"
  proof
    assume "StatusCode resp \<in> set (ExpectedResponseCodes r) \<and>
        (\<exists>c cs. fst (handleResponse env r (Some resp)) = Some (UnexpectedStatusError c cs))"
    then have m: "StatusCode resp \<in> set (ExpectedResponseCodes r)"
      and "\<exists>c cs. fst (handleResponse env r (Some resp)) = Some (UnexpectedStatusError c cs)"
      by auto
    then obtain c cs where
      "fst (parseVariables (ParseFromResponse env) resp (VariablesFromResponse r))
         = Some (UnexpectedStatusError c cs)"
      using b by auto
    from parseVariables_error [OF this] show False by simp
  qed
  have d: "(\<exists>c cs. fst (handleResponse env r (Some resp)) = Some (UnexpectedStatusError c cs))
      = (StatusCode resp \<notin> set (ExpectedResponseCodes r))"
  proof (cases "StatusCode resp \<in> set (ExpectedResponseCodes r)")
    case True
    with c show ?thesis by blast
  next
    case False
    with a [OF False] show ?thesis by simp
  qed
  from a b d show ?thesis
    by (simp add: containsInt_set)
qed

theorem C5_status_validation_witness:
  "handleResponse env_net (get ''A'' ''/login'' [header_rule ''token'' ''X-Token'']) (Some not_found)
     = (Some (UnexpectedStatusError 404 [200]),
        get ''A'' ''/login'' [header_rule ''token'' ''X-Token''])
   \<and> fst (handleResponse env_net (get ''A'' ''/login'' [header_rule ''token'' ''X-Token''])
            (Some ok_response)) = None"
  using C5_status_validation
          [of env_net "get ''A'' ''/login'' [header_rule ''token'' ''X-Token'']" not_found]
        C5_status_validation
          [of env_net "get ''A'' ''/login'' [header_rule ''token'' ''X-Token'']" ok_response]
  by (simp add: get_def header_rule_def not_found_def ok_response_def env_net_def
        parseHeader_def Get_all_def CanonicalMIMEHeaderKey_def validHeaderFieldByte_def
        canonByte_def)

subsection \<open>Substitution in headers and query parameters\<close>

lemma Get_all_Add: "Get_all (Add m K x) k = (if k = K then Get_all m K @ [x] else Get_all m k)"
  by (induction m) (auto simp: Get_all_def)

lemma map_of_Add:
  "map_of (Add m K x) k = (if k = K then Some (Get_all m K @ [x]) else map_of m k)"
  by (induction m) (auto simp: Get_all_def)

lemma map_of_fold_Add:
  "map_of (fold (\<lambda>x nv. Add nv K (f x)) vals nv) k =
     (if k = K \<and> vals \<noteq> [] then Some (Get_all nv K @ map f vals) else map_of nv k)"
proof (induction vals arbitrary: nv)
  case Nil
  show ?case by simp
next
  case (Cons x vals)
  show ?case
    by (simp add: Cons.IH map_of_Add Get_all_Add)
qed

lemma map_of_fold_fold_Add:
  "map_of (fold (\<lambda>(key, vals) nv. fold (\<lambda>x nv. Add nv (g key) (f x)) vals nv) v nv) K =
     (if substituted g f v K = [] then map_of nv K else Some (Get_all nv K @ substituted g f v K))"
proof (induction v arbitrary: nv)
  case Nil
  show ?case by (simp add: substituted_def)
next
  case (Cons p v)
  obtain key vals where p: "p = (key, vals)" by (cases p)
  show ?case
    unfolding p
    by (auto simp: Cons.IH map_of_fold_Add substituted_def Get_all_def)
qed

lemma filter_key_distinct:
  "distinct (map fst v) \<Longrightarrow>
     filter (\<lambda>(key, vals). key = K) v = (case map_of v K of None \<Rightarrow> [] | Some xs \<Rightarrow> [(K, xs)])"
proof (induction v)
  case Nil
  show ?case by simp
next
  case (Cons p v)
  obtain key vals where p: "p = (key, vals)" by (cases p)
  from Cons.prems have "map_of v key = None"
    by (simp add: p map_of_eq_None_iff)
  with Cons show ?case
    by (auto simp: p split: option.splits)
qed

lemma substituted_distinct:
  "distinct (map fst v) \<Longrightarrow>
     substituted (\<lambda>k. k) f v K = (case map_of v K of None \<Rightarrow> [] | Some xs \<Rightarrow> map f xs)"
  by (simp add: substituted_def filter_key_distinct split: option.splits)

lemma substituted_canonical:
  "\<forall>k\<in>fst ` set v. g k = k \<Longrightarrow> substituted g f v K = substituted (\<lambda>k. k) f v K"
proof -
  assume "\<forall>k\<in>fst ` set v. g k = k"
  then have "filter (\<lambda>(key, vals). g key = K) v = filter (\<lambda>(key, vals). key = K) v"
    by (intro filter_cong) auto
  then show ?thesis by (simp add: substituted_def)
qed

lemma replaceQueryParams_fold:
  "replaceQueryParams v rep =
     fold (\<lambda>(key, vals) nv. fold (\<lambda>x nv. Add nv key (Replace rep x)) vals nv) v []"
  by (cases "v = []") (simp_all add: replaceQueryParams_def)

lemma replaceHeader_fold:
  "replaceHeader v rep =
     fold (\<lambda>(key, vals) nv.
             fold (\<lambda>x nv. Add nv (CanonicalMIMEHeaderKey key) (Replace rep x)) vals nv) v []"
  by (cases "v = []") (simp_all add: replaceHeader_def HeaderAdd_def)

lemma map_of_replaceQueryParams:
  "map_of (replaceQueryParams v rep) K =
     (if substituted (\<lambda>k. k) (Replace rep) v K = [] then None
      else Some (substituted (\<lambda>k. k) (Replace rep) v K))"
  unfolding replaceQueryParams_fold
  using map_of_fold_fold_Add [of "\<lambda>k. k" "Replace rep" v "[]" K]
  by (simp add: Get_all_def)

lemma map_of_replaceHeader:
  "map_of (replaceHeader v rep) K =
     (if substituted CanonicalMIMEHeaderKey (Replace rep) v K = [] then None
      else Some (substituted CanonicalMIMEHeaderKey (Replace rep) v K))"
  unfolding replaceHeader_fold
  using map_of_fold_fold_Add [of CanonicalMIMEHeaderKey "Replace rep" v "[]" K]
  by (simp add: Get_all_def)

lemma substituted_Nil_iff:
  "substituted g f v K = [] \<longleftrightarrow> \<not> (\<exists>key vals. (key, vals) \<in> set v \<and> g key = K \<and> vals \<noteq> [])"
  by (auto simp: substituted_def)

lemma keys_replaceHeader:
  "fst ` set (replaceHeader v rep) =
     CanonicalMIMEHeaderKey ` {k. \<exists>xs. (k, xs) \<in> set v \<and> xs \<noteq> []}"
proof -
  have "K \<in> fst ` set (replaceHeader v rep) \<longleftrightarrow>
        K \<in> CanonicalMIMEHeaderKey ` {k. \<exists>xs. (k, xs) \<in> set v \<and> xs \<noteq> []}" for K
  proof -
    have "K \<in> fst ` set (replaceHeader v rep) \<longleftrightarrow> map_of (replaceHeader v rep) K \<noteq> None"
      by (simp add: map_of_eq_None_iff)
    also have "\<dots> \<longleftrightarrow> substituted CanonicalMIMEHeaderKey (Replace rep) v K \<noteq> []"
      by (simp add: map_of_replaceHeader)
    also have "\<dots> \<longleftrightarrow> K \<in> CanonicalMIMEHeaderKey ` {k. \<exists>xs. (k, xs) \<in> set v \<and> xs \<noteq> []}"
      by (auto simp: substituted_Nil_iff)
    finally show ?thesis .
  qed
  then show ?thesis by blast
qed

lemma filter_canonical_distinct:
  "distinct (map (\<lambda>p. g (fst p)) v) \<Longrightarrow> map_of v k = Some xs \<Longrightarrow>
     filter (\<lambda>(key, vals). g key = g k) v = [(k, xs)]"
proof (induction v)
  case Nil
  then show ?case by simp
next
  case (Cons p v)
  obtain key vals where p: "p = (key, vals)" by (cases p)
  show ?case
  proof (cases "key = k")
    case True
    with Cons.prems p have xs: "vals = xs" and n: "g k \<notin> (\<lambda>p. g (fst p)) ` set v"
      by auto
    have "\<forall>q\<in>set v. g (fst q) \<noteq> g k"
    proof
      fix q assume "q \<in> set v"
      show "g (fst q) \<noteq> g k"
      proof
        assume "g (fst q) = g k"
        then have "g k = g (fst q)" by simp
        with image_eqI [of "g k" "\<lambda>p. g (fst p)" q "set v"] \<open>q \<in> set v\<close> n
        show False by blast
      qed
    qed
    then have "filter (\<lambda>(key, vals). g key = g k) v = []"
      by (auto simp: filter_empty_conv)
    with True xs p show ?thesis by simp
  next
    case False
    with Cons.prems p have m: "map_of v k = Some xs" by simp
    then have "(k, xs) \<in> set v" by (rule map_of_SomeD)
    with Cons.prems p have "g key \<noteq> g k" by (auto simp: image_iff)
    with Cons.IH m Cons.prems p show ?thesis by simp
  qed
qed

text \<open>
  Claim C7, as amended. For a map with distinct keys, \<open>replaceQueryParams\<close> keeps every
  key that has at least one value, with its values substituted one by one in their
  order, and drops a key that has no value. \<open>replaceHeader\<close> stores the values under the
  canonical MIME forms of the keys: when all keys are canonical it does what
  \<open>replaceQueryParams\<close> does; when the canonical forms of the keys are distinct, a key
  with at least one value is found under its canonical form with its values
  substituted one by one in their order; and in every case the values under a key of
  the result are the substituted values of the entries whose key has that canonical
  form, in the order of the entries, and the keys of the result are the canonical forms
  of the keys that have a value.
\<close>

theorem C7_substitution_of_maps:
  assumes "distinct (map fst v)"
  shows "map_of (replaceQueryParams v rep) k =
           (case map_of v k of
              None \<Rightarrow> None
            | Some xs \<Rightarrow> if xs = [] then None else Some (map (Replace rep) xs))
         \<and> ((\<forall>key\<in>fst ` set v. CanonicalMIMEHeaderKey key = key) \<longrightarrow>
              map_of (replaceHeader v rep) k =
                (case map_of v k of
                   None \<Rightarrow> None
                 | Some xs \<Rightarrow> if xs = [] then None else Some (map (Replace rep) xs)))
         \<and> (distinct (map (\<lambda>p. CanonicalMIMEHeaderKey (fst p)) v) \<and> map_of v k = Some xs \<longrightarrow>
              map_of (replaceHeader v rep) (CanonicalMIMEHeaderKey k) =
                (if xs = [] then None else Some (map (Replace rep) xs)))
         \<and> map_of (replaceHeader v rep) K =
              (if substituted CanonicalMIMEHeaderKey (Replace rep) v K = [] then None
               else Some (substituted CanonicalMIMEHeaderKey (Replace rep) v K))
         \<and> fst ` set (replaceHeader v rep) =
              CanonicalMIMEHeaderKey ` {key. \<exists>xs. (key, xs) \<in> set v \<and> xs \<noteq> []}"
proof (intro conjI impI)
  show "map_of (replaceQueryParams v rep) k =
           (case map_of v k of
              None \<Rightarrow> None
            | Some xs \<Rightarrow> if xs = [] then None else Some (map (Replace rep) xs))"
    by (simp add: map_of_replaceQueryParams substituted_distinct [OF assms] split: option.splits)
next
  assume "\<forall>key\<in>fst ` set v. CanonicalMIMEHeaderKey key = key"
  then show "map_of (replaceHeader v rep) k =
           (case map_of v k of
              None \<Rightarrow> None
            | Some xs \<Rightarrow> if xs = [] then None else Some (map (Replace rep) xs))"
    by (simp add: map_of_replaceHeader substituted_canonical substituted_distinct [OF assms]
          split: option.splits)
next
  assume "distinct (map (\<lambda>p. CanonicalMIMEHeaderKey (fst p)) v) \<and> map_of v k = Some xs"
  then have "substituted CanonicalMIMEHeaderKey (Replace rep) v (CanonicalMIMEHeaderKey k)
               = map (Replace rep) xs"
    by (simp add: substituted_def filter_canonical_distinct)
  then show "map_of (replaceHeader v rep) (CanonicalMIMEHeaderKey k) =
                (if xs = [] then None else Some (map (Replace rep) xs))"
    by (simp add: map_of_replaceHeader)
next
  show "map_of (replaceHeader v rep) K =
              (if substituted CanonicalMIMEHeaderKey (Replace rep) v K = [] then None
               else Some (substituted CanonicalMIMEHeaderKey (Replace rep) v K))"
    by (rule map_of_replaceHeader)
next
  show "fst ` set (replaceHeader v rep) =
          CanonicalMIMEHeaderKey ` {key. \<exists>xs. (key, xs) \<in> set v \<and> xs \<noteq> []}"
    by (rule keys_replaceHeader)
qed

text \<open>The header key \<open>x-token\<close> comes back as \<open>X-Token\<close>, and the query parameter
  \<open>page\<close>, which has no value, is gone.\<close>

theorem C7_counterexample:
  "map fst (replaceHeader [(''x-token'', [''a''])] (newReplacer [])) = [''X-Token'']
   \<and> map fst (replaceQueryParams [(''page'', [])] (newReplacer [])) = []"
  by code_simp

theorem C7_substitution_of_maps_witness:
  "map_of (replaceQueryParams [(''Accept'', [''text/{{kind}}'', ''*/*'']), (''X-Trace'', [])]
        (newReplacer [\<lparr>Name = ''kind'', From = FromTypeProvided, Value = ''html''\<rparr>])) ''Accept''
       = Some [''text/html'', ''*/*'']
   \<and> map_of (replaceHeader [(''Accept'', [''text/{{kind}}'', ''*/*'']), (''X-Trace'', [])]
        (newReplacer [\<lparr>Name = ''kind'', From = FromTypeProvided, Value = ''html''\<rparr>])) ''Accept''
       = Some [''text/html'', ''*/*'']
   \<and> map_of (replaceHeader [(''authorization'', [''Bearer {{token}}'', ''{{token}}'']), (''accept'', [])]
        (newReplacer [token_var])) (CanonicalMIMEHeaderKey ''authorization'')
       = Some [''Bearer abc123'', ''abc123'']
   \<and> CanonicalMIMEHeaderKey ''authorization'' = ''Authorization''
   \<and> map_of (replaceHeader [(''x-token'', [''{{token}}'']), (''X-Token'', [''b''])]
        (newReplacer [token_var])) ''X-Token''
       = Some [''abc123'', ''b'']"
proof -
  let ?v = "[(''Accept'', [''text/{{kind}}'', ''*/*'']), (''X-Trace'', [])]"
  let ?r = "newReplacer [\<lparr>Name = ''kind'', From = FromTypeProvided, Value = ''html''\<rparr>]"
  let ?w = "[(''authorization'', [''Bearer {{token}}'', ''{{token}}'']), (''accept'', [])]"
  let ?u = "[(''x-token'', [''{{token}}'']), (''X-Token'', [''b''])]"
  have d: "distinct (map fst ?v)" "distinct (map fst ?w)" "distinct (map fst ?u)"
    by simp_all
  have c: "\<forall>key\<in>fst ` set ?v. CanonicalMIMEHeaderKey key = key"
    by code_simp
  have m: "map_of ?v ''Accept'' = Some [''text/{{kind}}'', ''*/*'']"
    by simp
  have r: "map (Replace ?r) [''text/{{kind}}'', ''*/*''] = [''text/html'', ''*/*'']"
    by code_simp
  have dw: "distinct (map (\<lambda>p. CanonicalMIMEHeaderKey (fst p)) ?w)
      \<and> map_of ?w ''authorization'' = Some [''Bearer {{token}}'', ''{{token}}'']"
    by code_simp
  have ew: "map (Replace (newReplacer [token_var])) [''Bearer {{token}}'', ''{{token}}'']
          = [''Bearer abc123'', ''abc123'']"
    by code_simp
  have cw: "CanonicalMIMEHeaderKey ''authorization'' = ''Authorization''"
    by code_simp
  have su: "substituted CanonicalMIMEHeaderKey (Replace (newReplacer [token_var])) ?u ''X-Token''
              = [''abc123'', ''b'']"
    by code_simp
  note t1 = C7_substitution_of_maps [OF d(1), where rep = ?r and k = "''Accept''"
              and xs = "[]" and K = "''Accept''"]
  note t2 = C7_substitution_of_maps [OF d(2), where rep = "newReplacer [token_var]"
              and k = "''authorization''" and xs = "[''Bearer {{token}}'', ''{{token}}'']"
              and K = "''Authorization''"]
  note t3 = C7_substitution_of_maps [OF d(3), where rep = "newReplacer [token_var]"
              and K = "''X-Token''" and k = "''x-token''" and xs = "[]"]
  from t1 c m r have a: "map_of (replaceQueryParams ?v ?r) ''Accept'' = Some [''text/html'', ''*/*'']
      \<and> map_of (replaceHeader ?v ?r) ''Accept'' = Some [''text/html'', ''*/*'']"
    by simp
  from t2 dw have "map_of (replaceHeader ?w (newReplacer [token_var]))
        (CanonicalMIMEHeaderKey ''authorization'')
      = (if [''Bearer {{token}}'', ''{{token}}''] = [] then None
         else Some (map (Replace (newReplacer [token_var])) [''Bearer {{token}}'', ''{{token}}'']))"
    by blast
  with ew have b: "map_of (replaceHeader ?w (newReplacer [token_var]))
        (CanonicalMIMEHeaderKey ''authorization'') = Some [''Bearer abc123'', ''abc123'']"
    by simp
  from t3 su have e: "map_of (replaceHeader ?u (newReplacer [token_var])) ''X-Token''
       = Some [''abc123'', ''b'']"
    by simp
  from a b e cw show ?thesis by simp
qed

subsection \<open>Rendering templates\<close>

lemma lookup_None: "\<forall>p\<in>set r. \<not> prefix (fst p) s \<Longrightarrow> lookup r b s = None"
  by (auto simp: lookup_def find_None_iff)

lemma replace_from_None:
  "lookup r b s = None \<Longrightarrow>
     replace_from r b s = (case s of [] \<Rightarrow> [] | c # cs \<Rightarrow> c # replace_from r False cs)"
  by (subst replace_from.simps) simp

lemma replace_from_Some:
  "lookup r b s = Some (old, new) \<Longrightarrow>
     replace_from r b s = new @ replace_from r (old = []) (drop (length old) s)"
  by (subst replace_from.simps) simp

lemma replace_from_no_match:
  "\<forall>p\<in>set r. \<not> sublist (fst p) s \<Longrightarrow> replace_from r b s = s"
proof (induction s arbitrary: b)
  case Nil
  then have "lookup r b [] = None"
    by (intro lookup_None) auto
  then show ?case by (simp add: replace_from_None)
next
  case (Cons c cs)
  then have "lookup r b (c # cs) = None"
    by (intro lookup_None) (auto dest: prefix_imp_sublist)
  moreover from Cons.prems have "\<forall>p\<in>set r. \<not> sublist (fst p) cs"
    by (auto simp: sublist_Cons_right)
  ultimately show ?case
    by (simp add: replace_from_None Cons.IH)
qed

lemma fst_newReplacer: "fst ` set (newReplacer store) = (\<lambda>v. placeholder (Name v)) ` set store"
  by (auto simp: newReplacer_def image_iff)

lemma Replace_no_placeholder:
  assumes "\<forall>v\<in>set store. \<not> sublist (placeholder (Name v)) t"
  shows "Replace (newReplacer store) t = t"
proof -
  have "\<forall>p\<in>set (newReplacer store). \<not> sublist (fst p) t"
    using assms fst_newReplacer [of store] by (metis (no_types, lifting) image_iff)
  then show ?thesis
    by (simp add: Replace_def replace_from_no_match)
qed

lemma close_eq:
  assumes "CHR ''}'' \<notin> set m" "CHR ''}'' \<notin> set n"
    and "m @ CHR ''}'' # xs = n @ CHR ''}'' # ys"
  shows "m = n"
proof -
  have "takeWhile (\<lambda>c. c \<noteq> CHR ''}'') (m @ CHR ''}'' # xs) = m"
    using assms(1) by (auto simp: takeWhile_tail)
  moreover have "takeWhile (\<lambda>c. c \<noteq> CHR ''}'') (n @ CHR ''}'' # ys) = n"
    using assms(2) by (auto simp: takeWhile_tail)
  ultimately show ?thesis using assms(3) by simp
qed

lemma prefix_placeholder:
  assumes "CHR ''}'' \<notin> set m" "CHR ''}'' \<notin> set n"
  shows "prefix (placeholder m) (placeholder n @ rest) \<longleftrightarrow> m = n"
proof
  assume "prefix (placeholder m) (placeholder n @ rest)"
  then obtain zs where "placeholder n @ rest = placeholder m @ zs"
    by (auto simp: prefix_def)
  then have "n @ CHR ''}'' # (CHR ''}'' # rest) = m @ CHR ''}'' # (CHR ''}'' # zs)"
    by (simp add: placeholder_def)
  from close_eq [OF assms(2) assms(1) this] show "m = n" by simp
next
  assume "m = n"
  then show "prefix (placeholder m) (placeholder n @ rest)" by simp
qed

lemma length_takeWhile_less:
  "x \<in> set xs \<Longrightarrow> \<not> P x \<Longrightarrow> length (takeWhile P xs) < length xs"
  by (induction xs) auto

lemma sublist_placeholder:
  assumes "sublist (placeholder m) (placeholder n)" "braceless n"
  shows "m = n"
proof -
  from assms(2) have no: "CHR ''{'' \<notin> set n" and nc: "CHR ''}'' \<notin> set n"
    by (simp_all add: braceless_def)
  from assms(1) obtain pre post where e: "placeholder n = pre @ placeholder m @ post"
    by (auto simp: sublist_def)
  show ?thesis
  proof (cases pre)
    case Nil
    with e have eq: "n @ CHR ''}'' # CHR ''}'' # [] = m @ CHR ''}'' # CHR ''}'' # post"
      by (simp add: placeholder_def)
    then have "length (n @ CHR ''}'' # CHR ''}'' # []) = length (m @ CHR ''}'' # CHR ''}'' # post)"
      by (rule arg_cong)
    then have len: "length m \<le> length n"
      by simp
    have tn: "takeWhile (\<lambda>c. c \<noteq> CHR ''}'') (n @ CHR ''}'' # CHR ''}'' # []) = n"
      using nc by (auto simp: takeWhile_tail)
    show ?thesis
    proof (cases "CHR ''}'' \<in> set m")
      case True
      then have "takeWhile (\<lambda>c. c \<noteq> CHR ''}'') (m @ CHR ''}'' # CHR ''}'' # post)
                   = takeWhile (\<lambda>c. c \<noteq> CHR ''}'') m"
        by (auto simp: takeWhile_append1)
      with tn eq have "n = takeWhile (\<lambda>c. c \<noteq> CHR ''}'') m" by simp
      moreover from True have "length (takeWhile (\<lambda>c. c \<noteq> CHR ''}'') m) < length m"
        by (intro length_takeWhile_less) auto
      ultimately show ?thesis using len by simp
    next
      case False
      from close_eq [OF False nc eq [symmetric]] show ?thesis .
    qed
  next
    case (Cons c pre')
    with e have e1: "CHR ''{'' # n @ ''}}'' = pre' @ placeholder m @ post"
      by (auto simp: placeholder_def)
    show ?thesis
    proof (cases pre')
      case Nil
      with e1 have "n @ ''}}'' = CHR ''{'' # m @ ''}}'' @ post"
        by (auto simp: placeholder_def)
      with no show ?thesis by (cases n) auto
    next
      case (Cons c' pre'')
      with e1 have "n @ ''}}'' = pre'' @ placeholder m @ post"
        by auto
      then have "CHR ''{'' \<in> set (n @ ''}}'')"
        by (auto simp: placeholder_def)
      with no show ?thesis by simp
    qed
  qed
qed

lemma Replace_unknown_placeholder:
  assumes "braceless n" "n \<notin> Name ` set store"
  shows "Replace (newReplacer store) (placeholder n) = placeholder n"
proof (rule Replace_no_placeholder, rule ballI)
  fix v assume "v \<in> set store"
  with assms(2) have "Name v \<noteq> n" by auto
  with sublist_placeholder [OF _ assms(1)] show "\<not> sublist (placeholder (Name v)) (placeholder n)"
    by blast
qed

lemma find_Some_mem: "find P xs = Some x \<Longrightarrow> P x \<and> x \<in> set xs"
  by (induction xs) (auto split: if_splits)

lemma find_map_option: "find P (map f xs) = map_option f (find (\<lambda>x. P (f x)) xs)"
  by (induction xs) auto

lemma lookup_newReplacer:
  assumes "\<forall>u\<in>set store. CHR ''}'' \<notin> set (Name u)"
    and "find (\<lambda>u. Name u = n) (rev store) = Some v"
  shows "lookup (newReplacer store) b (placeholder n @ rest) = Some (placeholder n, Value v)"
proof -
  from find_Some_mem [OF assms(2)] have v: "Name v = n" "v \<in> set store"
    by simp_all
  with assms(1) have n: "CHR ''}'' \<notin> set n" by auto
  have "find (\<lambda>u. prefix (placeholder (Name u)) (placeholder n @ rest)
                  \<and> \<not> (b \<and> placeholder (Name u) = [])) (rev store)
        = find (\<lambda>u. Name u = n) (rev store)"
  proof (rule find_cong [OF refl])
    fix u assume "u \<in> set (rev store)"
    with assms(1) have "CHR ''}'' \<notin> set (Name u)" by simp
    from prefix_placeholder [OF this n, of rest]
    show "(prefix (placeholder (Name u)) (placeholder n @ rest)
            \<and> \<not> (b \<and> placeholder (Name u) = [])) = (Name u = n)"
      by (simp add: placeholder_def)
  qed
  then show ?thesis
    using assms(2) v(1)
    by (simp add: lookup_def newReplacer_def find_map_option case_prod_beta)
qed

lemma Replace_known_placeholder:
  assumes "\<forall>u\<in>set store. CHR ''}'' \<notin> set (Name u)"
    and "find (\<lambda>u. Name u = n) (rev store) = Some v"
  shows "Replace (newReplacer store) (placeholder n @ rest)
           = Value v @ Replace (newReplacer store) rest"
  unfolding Replace_def
  by (subst replace_from_Some [OF lookup_newReplacer [OF assms]]) (simp add: placeholder_def)

lemma replace_from_flag:
  assumes "\<forall>p\<in>set r. fst p \<noteq> []"
  shows "replace_from r b s = replace_from r False s"
proof -
  have "lookup r b s = lookup r False s"
    unfolding lookup_def using assms by (intro find_cong) auto
  then show ?thesis
    by (subst replace_from.simps, subst (2) replace_from.simps) simp
qed

lemma replace_from_copy:
  assumes "\<forall>p\<in>set r. \<exists>t. fst p = CHR ''{'' # t" and "CHR ''{'' \<notin> set xs"
  shows "replace_from r False (xs @ rest) = xs @ replace_from r False rest"
  using assms(2)
proof (induction xs)
  case Nil
  show ?case by simp
next
  case (Cons c cs)
  then have "c \<noteq> CHR ''{''" by auto
  with assms(1) have "lookup r False (c # cs @ rest) = None"
    by (intro lookup_None) fastforce
  with Cons show ?case
    by (simp add: replace_from_None)
qed

lemma Replace_unknown_in_context:
  assumes "\<forall>u\<in>set store. CHR ''}'' \<notin> set (Name u)"
    and "braceless n" and "n \<notin> Name ` set store"
  shows "Replace (newReplacer store) (placeholder n @ rest)
           = placeholder n @ Replace (newReplacer store) rest"
proof -
  let ?r = "newReplacer store"
  from assms(2) have no: "CHR ''{'' \<notin> set n" and nc: "CHR ''}'' \<notin> set n"
    by (simp_all add: braceless_def)
  have pats: "\<forall>p\<in>set ?r. \<exists>u\<in>set store. fst p = placeholder (Name u)"
    by (auto simp: newReplacer_def)
  then have opens: "\<forall>p\<in>set ?r. \<exists>t. fst p = CHR ''{'' # t"
    by (fastforce simp: placeholder_def)
  have 1: "lookup ?r False (placeholder n @ rest) = None"
  proof (rule lookup_None, rule ballI)
    fix p assume "p \<in> set ?r"
    with pats obtain u where u: "u \<in> set store" "fst p = placeholder (Name u)" by auto
    with assms(1,3) have "CHR ''}'' \<notin> set (Name u)" "Name u \<noteq> n" by auto
    with prefix_placeholder [OF _ nc, of "Name u" rest] u(2)
    show "\<not> prefix (fst p) (placeholder n @ rest)" by simp
  qed
  have 2: "lookup ?r False (CHR ''{'' # n @ ''}}'' @ rest) = None"
  proof (rule lookup_None, rule ballI)
    fix p assume "p \<in> set ?r"
    with pats obtain u :: variable where "fst p = placeholder (Name u)" by auto
    with no show "\<not> prefix (fst p) (CHR ''{'' # n @ ''}}'' @ rest)"
      by (cases n) (auto simp: placeholder_def)
  qed
  have 3: "replace_from ?r False ((n @ ''}}'') @ rest) = (n @ ''}}'') @ replace_from ?r False rest"
    using opens no by (intro replace_from_copy) auto
  have "placeholder n @ rest = CHR ''{'' # CHR ''{'' # n @ ''}}'' @ rest"
    by (simp add: placeholder_def)
  with 1 2 3 show ?thesis
    by (simp add: Replace_def replace_from_None placeholder_def)
qed

lemma BuildRequest_Body:
  "BuildRequest r = Inr req \<Longrightarrow> req_Body req = Replace (newReplacer (availableVariables r)) (Body r)"
  by (auto simp: BuildRequest_def NewRequest_def Let_def split: sum.splits if_splits)

lemma prefix_no_open:
  assumes "CHR ''{'' \<notin> set xs" "prefix xs (zs @ CHR ''{'' # Y)"
  shows "prefix xs zs"
proof -
  from assms(2) have "prefix xs zs \<or> (\<exists>us. xs = zs @ us \<and> prefix us (CHR ''{'' # Y))"
    by (simp add: prefix_append)
  then show ?thesis
  proof
    assume "prefix xs zs"
    then show ?thesis .
  next
    assume "\<exists>us. xs = zs @ us \<and> prefix us (CHR ''{'' # Y)"
    then obtain us where us: "xs = zs @ us" "prefix us (CHR ''{'' # Y)" by blast
    show ?thesis
    proof (cases us)
      case Nil
      with us(1) show ?thesis by simp
    next
      case (Cons a us')
      with us(2) have "a = CHR ''{''" by simp
      with Cons us(1) assms(1) show ?thesis by simp
    qed
  qed
qed

lemma no_straddle:
  assumes "CHR ''{'' \<notin> set k" "zs \<noteq> []"
    and "prefix (placeholder k) (zs @ CHR ''{'' # CHR ''{'' # Y)"
  shows "prefix (placeholder k) zs"
proof -
  from assms(2) obtain z1 zs1 where zs: "zs = z1 # zs1" by (cases zs) auto
  with assms(3) have z1: "z1 = CHR ''{''"
    and p1: "prefix (CHR ''{'' # k @ ''}}'') (zs1 @ CHR ''{'' # CHR ''{'' # Y)"
    by (auto simp: placeholder_def)
  show ?thesis
  proof (cases zs1)
    case Nil
    with p1 have "prefix (k @ ''}}'') (CHR ''{'' # Y)" by simp
    with assms(1) show ?thesis by (cases k) auto
  next
    case (Cons z2 zs2)
    with p1 have z2: "z2 = CHR ''{''"
      and p2: "prefix (k @ ''}}'') (zs2 @ CHR ''{'' # CHR ''{'' # Y)"
      by auto
    from assms(1) have "CHR ''{'' \<notin> set (k @ ''}}'')" by simp
    from prefix_no_open [OF this p2] have "prefix (k @ ''}}'') zs2" .
    with zs Cons z1 z2 show ?thesis by (simp add: placeholder_def)
  qed
qed

lemma replace_from_split:
  assumes ne: "\<forall>p\<in>set r. fst p \<noteq> []"
    and ns: "\<And>zs p. zs \<noteq> [] \<Longrightarrow> p \<in> set r \<Longrightarrow> prefix (fst p) (zs @ X) \<Longrightarrow> prefix (fst p) zs"
  shows "replace_from r False (pre @ X) = replace_from r False pre @ replace_from r False X"
proof (induction "length pre" arbitrary: pre rule: less_induct)
  case less
  show ?case
  proof (cases pre)
    case Nil
    from ne have "lookup r False [] = None"
      by (intro lookup_None) auto
    then have "replace_from r False [] = []" by (simp add: replace_from_None)
    with Nil show ?thesis by simp
  next
    case (Cons c cs)
    have same: "lookup r False (pre @ X) = lookup r False pre"
      unfolding lookup_def
    proof (rule find_cong [OF refl])
      fix p assume p: "p \<in> set r"
      obtain old new where on: "p = (old, new)" by (cases p)
      have "prefix old pre \<Longrightarrow> prefix old (pre @ X)"
        by (rule prefix_prefix)
      then have "prefix old (pre @ X) = prefix old pre"
        using ns [of pre p] p Cons on by auto
      then show "(case p of (old, new) \<Rightarrow> prefix old (pre @ X) \<and> \<not> (False \<and> old = []))
               = (case p of (old, new) \<Rightarrow> prefix old pre \<and> \<not> (False \<and> old = []))"
        by (simp add: on)
    qed
    show ?thesis
    proof (cases "lookup r False pre")
      case None
      with same Cons less [of cs] show ?thesis
        by (simp add: replace_from_None)
    next
      case (Some a)
      obtain old new where a: "a = (old, new)" by (cases a)
      from Some a have f: "prefix old pre" "(old, new) \<in> set r"
        by (auto simp: lookup_def dest: find_Some_mem)
      with ne have o: "old \<noteq> []" by auto
      from f(1) have d: "drop (length old) (pre @ X) = drop (length old) pre @ X"
        by (auto simp: prefix_def)
      from o f(1) have "length (drop (length old) pre) < length pre"
        by (cases old) (auto simp: prefix_def)
      from less [OF this] Some same a o d show ?thesis
        by (simp add: replace_from_Some)
    qed
  qed
qed

lemma Replace_split:
  assumes "\<forall>u\<in>set store. braceless (Name u)"
  shows "Replace (newReplacer store) (pre @ placeholder n @ rest)
           = Replace (newReplacer store) pre @ Replace (newReplacer store) (placeholder n @ rest)"
  unfolding Replace_def
proof (rule replace_from_split)
  show "\<forall>p\<in>set (newReplacer store). fst p \<noteq> []"
    by (auto simp: newReplacer_def placeholder_def)
next
  fix zs :: string and p
  assume zs: "zs \<noteq> []" and p: "p \<in> set (newReplacer store)"
    and pre: "prefix (fst p) (zs @ placeholder n @ rest)"
  from p obtain u :: variable where u: "u \<in> set store" "fst p = placeholder (Name u)"
    by (auto simp: newReplacer_def)
  with assms have "CHR ''{'' \<notin> set (Name u)" by (auto simp: braceless_def)
  from no_straddle [OF this zs, of "n @ ''}}'' @ rest"] pre u(2)
  show "prefix (fst p) zs" by (simp add: placeholder_def)
qed

lemma Replace_Nil: "Replace (newReplacer store) [] = []"
proof -
  have "lookup (newReplacer store) False [] = None"
    by (intro lookup_None) (auto simp: newReplacer_def placeholder_def)
  then show ?thesis by (simp add: Replace_def replace_from_None)
qed

lemma Replace_copy:
  assumes "\<forall>u\<in>set store. \<not> prefix (placeholder (Name u)) (c # cs)"
  shows "Replace (newReplacer store) (c # cs) = c # Replace (newReplacer store) cs"
proof -
  have "lookup (newReplacer store) False (c # cs) = None"
    using assms by (intro lookup_None) (auto simp: newReplacer_def)
  then show ?thesis by (simp add: Replace_def replace_from_None)
qed

lemma braceless_close: "braceless n \<Longrightarrow> CHR ''}'' \<notin> set n"
  by (simp add: braceless_def)

text \<open>
  Claim C6, as amended. Rendering is \<open>Replace\<close> with the replacer of the store, as
  \<open>BuildRequest\<close> applies it to the URL and the body. For every store, a template in
  which no placeholder of a stored variable occurs is returned unchanged, and so is
  a template that is one placeholder whose name has no brace and is the name of no
  stored variable. For a store
  whose variable names have no brace and every template: a placeholder \<open>{{n}}\<close> whose
  name (without a brace) is the name of no stored variable is left as it is wherever it
  stands, and a placeholder of a stored variable is replaced, wherever it stands, by the
  value of the latest variable of that name; in both cases the text before and the text
  behind are rendered on their own, so the value written is not read again, whatever it
  contains. Rendering is one pass from the left: the empty template renders to itself,
  and where no stored placeholder begins, one byte is copied and rendering goes on
  behind it; with the case of a stored placeholder at the front this fixes the
  rendering of every template.
\<close>

theorem C6_rendering:
  "((\<forall>u\<in>set store. \<not> sublist (placeholder (Name u)) t) \<longrightarrow>
      Replace (newReplacer store) t = t)
   \<and> (braceless n \<and> n \<notin> Name ` set store \<longrightarrow>
        Replace (newReplacer store) (placeholder n) = placeholder n)
   \<and> ((\<forall>u\<in>set store. braceless (Name u)) \<and> braceless n \<and> n \<notin> Name ` set store \<longrightarrow>
        Replace (newReplacer store) (pre @ placeholder n @ rest)
          = Replace (newReplacer store) pre @ placeholder n @ Replace (newReplacer store) rest)
   \<and> ((\<forall>u\<in>set store. braceless (Name u))
          \<and> find (\<lambda>u. Name u = m) (rev store) = Some v \<longrightarrow>
        Replace (newReplacer store) (pre @ placeholder m @ rest)
          = Replace (newReplacer store) pre @ Value v @ Replace (newReplacer store) rest)
   \<and> Replace (newReplacer store) [] = []
   \<and> ((\<forall>u\<in>set store. \<not> prefix (placeholder (Name u)) (c # cs)) \<longrightarrow>
        Replace (newReplacer store) (c # cs) = c # Replace (newReplacer store) cs)
   \<and> (availableVariables r = store \<and> BuildRequest r = Inr req \<longrightarrow>
        req_Body req = Replace (newReplacer store) (Body r))"
proof (intro conjI impI)
  assume "\<forall>u\<in>set store. \<not> sublist (placeholder (Name u)) t"
  then show "Replace (newReplacer store) t = t" by (rule Replace_no_placeholder)
next
  assume "braceless n \<and> n \<notin> Name ` set store"
  then show "Replace (newReplacer store) (placeholder n) = placeholder n"
    by (simp add: Replace_unknown_placeholder)
next
  assume a: "(\<forall>u\<in>set store. braceless (Name u)) \<and> braceless n \<and> n \<notin> Name ` set store"
  then have c: "\<forall>u\<in>set store. CHR ''}'' \<notin> set (Name u)"
    by (simp add: braceless_def)
  from a Replace_split [of store pre n rest] Replace_unknown_in_context [OF c, of n rest]
  show "Replace (newReplacer store) (pre @ placeholder n @ rest)
          = Replace (newReplacer store) pre @ placeholder n @ Replace (newReplacer store) rest"
    by simp
next
  assume a: "(\<forall>u\<in>set store. braceless (Name u))
          \<and> find (\<lambda>u. Name u = m) (rev store) = Some v"
  then have c: "\<forall>u\<in>set store. CHR ''}'' \<notin> set (Name u)"
    by (simp add: braceless_def)
  from a Replace_split [of store pre m rest] Replace_known_placeholder [OF c, of m v rest]
  show "Replace (newReplacer store) (pre @ placeholder m @ rest)
          = Replace (newReplacer store) pre @ Value v @ Replace (newReplacer store) rest"
    by simp
next
  show "Replace (newReplacer store) [] = []" by (rule Replace_Nil)
next
  assume "\<forall>u\<in>set store. \<not> prefix (placeholder (Name u)) (c # cs)"
  then show "Replace (newReplacer store) (c # cs) = c # Replace (newReplacer store) cs"
    by (rule Replace_copy)
next
  assume "availableVariables r = store \<and> BuildRequest r = Inr req"
  with BuildRequest_Body [of r req]
  show "req_Body req = Replace (newReplacer store) (Body r)" by simp
qed

text \<open>With a variable named \<open>a}}{{b\<close> in the store, the template \<open>{{a}}{{b}}\<close> is
  rewritten as a whole, although neither \<open>a\<close> nor \<open>b\<close> names a variable.\<close>

theorem C6_counterexample:
  "Replace (newReplacer [\<lparr>Name = ''a}}{{b'', From = FromTypeProvided, Value = ''V''\<rparr>])
       (placeholder ''a'' @ placeholder ''b'') = ''V''
   \<and> ''a'' \<notin> Name ` set [\<lparr>Name = ''a}}{{b'', From = FromTypeProvided, Value = ''V''\<rparr>]
   \<and> ''b'' \<notin> Name ` set [\<lparr>Name = ''a}}{{b'', From = FromTypeProvided, Value = ''V''\<rparr>]"
  by code_simp

theorem C6_rendering_witness:
  "Replace (newReplacer ab_store) ''see {{c}} and {b}'' = ''see {{c}} and {b}''
   \<and> Replace (newReplacer ab_store) (placeholder ''c'') = placeholder ''c''
   \<and> Replace (newReplacer ab_store) (''x'' @ placeholder ''c'' @ ''{{b}}'')
        = Replace (newReplacer ab_store) ''x'' @ placeholder ''c''
            @ Replace (newReplacer ab_store) ''{{b}}''
   \<and> Replace (newReplacer ab_store) (''x'' @ placeholder ''a'' @ ''{{b}}'')
        = Replace (newReplacer ab_store) ''x'' @ ''{{b}}''
            @ Replace (newReplacer ab_store) ''{{b}}''
   \<and> Replace (newReplacer ab_store) (CHR ''x'' # ''{{c}}'')
        = CHR ''x'' # Replace (newReplacer ab_store) ''{{c}}''
   \<and> Replace (newReplacer ab_store) ''x{{c}}{{b}}'' = ''x{{c}}X''
   \<and> Replace (newReplacer ab_store) ''x{{a}}{{b}}'' = ''x{{b}}X''
   \<and> req_Body (projr (BuildRequest ((get ''A'' ''/'' [])\<lparr>Body := ''{{a}}'', availableVariables := ab_store\<rparr>)))
        = Replace (newReplacer ab_store) ''{{a}}''"
proof -
  have h1: "\<forall>u\<in>set ab_store. \<not> sublist (placeholder (Name u)) ''see {{c}} and {b}''"
    by code_simp
  have h2: "(\<forall>u\<in>set ab_store. braceless (Name u)) \<and> braceless ''c''
              \<and> ''c'' \<notin> Name ` set ab_store"
    by code_simp
  have h3: "\<forall>u\<in>set ab_store. \<not> prefix (placeholder (Name u)) (CHR ''x'' # ''{{c}}'')"
    by code_simp
  have h4: "find (\<lambda>u. Name u = ''a'') (rev ab_store)
              = Some \<lparr>Name = ''a'', From = FromTypeProvided, Value = ''{{b}}''\<rparr>"
    by code_simp
  have h5: "BuildRequest ((get ''A'' ''/'' [])\<lparr>Body := ''{{a}}'', availableVariables := ab_store\<rparr>)
              = Inr (projr (BuildRequest ((get ''A'' ''/'' [])\<lparr>Body := ''{{a}}'', availableVariables := ab_store\<rparr>)))"
    by code_simp
  have h6: "availableVariables ((get ''A'' ''/'' [])\<lparr>Body := ''{{a}}'', availableVariables := ab_store\<rparr>) = ab_store"
     "Body ((get ''A'' ''/'' [])\<lparr>Body := ''{{a}}'', availableVariables := ab_store\<rparr>) = ''{{a}}''"
    by simp_all
  have e: "Replace (newReplacer ab_store) ''x{{c}}{{b}}'' = ''x{{c}}X''
      \<and> Replace (newReplacer ab_store) ''x{{a}}{{b}}'' = ''x{{b}}X''"
    by code_simp
  note th = C6_rendering
      [where store = ab_store and t = "''see {{c}} and {b}''" and n = "''c''" and pre = "''x''"
         and rest = "''{{b}}''" and m = "''a''"
         and v = "\<lparr>Name = ''a'', From = FromTypeProvided, Value = ''{{b}}''\<rparr>"
         and c = "CHR ''x''" and cs = "''{{c}}''"
         and r = "(get ''A'' ''/'' [])\<lparr>Body := ''{{a}}'', availableVariables := ab_store\<rparr>"
         and req = "projr (BuildRequest ((get ''A'' ''/'' [])\<lparr>Body := ''{{a}}'', availableVariables := ab_store\<rparr>))"]
  from th h1 have a: "Replace (newReplacer ab_store) ''see {{c}} and {b}'' = ''see {{c}} and {b}''"
    by blast
  from th h2 have b: "Replace (newReplacer ab_store) (''x'' @ placeholder ''c'' @ ''{{b}}'')
        = Replace (newReplacer ab_store) ''x'' @ placeholder ''c''
            @ Replace (newReplacer ab_store) ''{{b}}''"
    by blast
  from th h2 h4 have c: "Replace (newReplacer ab_store) (''x'' @ placeholder ''a'' @ ''{{b}}'')
        = Replace (newReplacer ab_store) ''x''
            @ Value \<lparr>Name = ''a'', From = FromTypeProvided, Value = ''{{b}}''\<rparr>
            @ Replace (newReplacer ab_store) ''{{b}}''"
    by blast
  from th h2 have g: "Replace (newReplacer ab_store) (placeholder ''c'') = placeholder ''c''"
    by blast
  from th h3 have d: "Replace (newReplacer ab_store) (CHR ''x'' # ''{{c}}'')
        = CHR ''x'' # Replace (newReplacer ab_store) ''{{c}}''"
    by blast
  from th h5 h6 have f: "req_Body (projr (BuildRequest ((get ''A'' ''/'' [])\<lparr>Body := ''{{a}}'', availableVariables := ab_store\<rparr>)))
        = Replace (newReplacer ab_store) ''{{a}}''"
    by simp
  from a b c d e f g show ?thesis
    by simp
qed

subsection \<open>The URL of a built request\<close>

text \<open>In the login scenario A succeeds and extracts \<open>token = abc123\<close>, and the request
  that \<open>BuildRequest\<close> builds for B, the one the client is given, has the URL \<open>/data\<close>:
  the query of the rendered URL is gone.\<close>

theorem C1_counterexample:
  "snd (executed login_run ! 0) = None
   \<and> VariablesFromResponse (fst (executed login_run ! 0))
        = [\<lparr>Name = ''token'', From = FromTypeHeader ''X-Token'', Value = ''abc123''\<rparr>]
   \<and> RequestName (fst (executed login_run ! 1)) = ''B''
   \<and> BuildRequest (fst (executed login_run ! 1)) = Inr (world login_run ! 1)
   \<and> URL_String (req_URL (world login_run ! 1)) = ''/data''
   \<and> URL_String (req_URL (world login_run ! 1)) \<noteq> ''/data?auth=abc123''"
  by code_simp

text \<open>
  Claim C1, as amended. The URL of the request that \<open>BuildRequest\<close> returns is the
  rendered URL template as \<open>url.Parse\<close> reads it, with its query replaced by the encoding
  of the rendered query parameters: the two are not merged. In the login scenario B's
  template renders to \<open>/data?auth=abc123\<close> and, the query parameters being empty, the
  built URL is \<open>/data\<close>; with the template \<open>/data\<close> and the query parameter
  \<open>auth={{token}}\<close> it is \<open>/data?auth=abc123\<close>.
\<close>

theorem C1_built_url:
  assumes "BuildRequest r = Inr req"
  shows "\<exists>u. url_Parse (Replace (newReplacer (availableVariables r)) (Url r)) = Inr u
            \<and> req_URL req =
                u\<lparr>RawQuery := Encode (replaceQueryParams (QueryParams r)
                                          (newReplacer (availableVariables r)))\<rparr>"
  using assms
  by (auto simp: BuildRequest_def NewRequest_def Let_def split: sum.splits if_splits)

theorem C1_built_url_witness:
  "Replace (newReplacer (availableVariables (fst (executed login_run ! 1))))
       (Url (fst (executed login_run ! 1))) = ''/data?auth=abc123''
   \<and> url_Parse ''/data?auth=abc123''
        = Inr \<lparr>Rest = ''/data'', ForceQuery = False, RawQuery = ''auth=abc123'', Fragment = []\<rparr>
   \<and> req_URL (world login_run ! 1)
        = \<lparr>Rest = ''/data'', ForceQuery = False, RawQuery = [], Fragment = []\<rparr>
   \<and> URL_String (req_URL (world login_run_params ! 1)) = ''/data?auth=abc123''"
proof -
  have b: "BuildRequest (fst (executed login_run ! 1)) = Inr (world login_run ! 1)"
    by code_simp
  have t: "Replace (newReplacer (availableVariables (fst (executed login_run ! 1))))
             (Url (fst (executed login_run ! 1))) = ''/data?auth=abc123''"
    by code_simp
  have p: "url_Parse ''/data?auth=abc123''
        = Inr \<lparr>Rest = ''/data'', ForceQuery = False, RawQuery = ''auth=abc123'', Fragment = []\<rparr>"
    by code_simp
  have q: "Encode (replaceQueryParams (QueryParams (fst (executed login_run ! 1)))
             (newReplacer (availableVariables (fst (executed login_run ! 1))))) = []"
    by code_simp
  have s: "URL_String (req_URL (world login_run_params ! 1)) = ''/data?auth=abc123''"
    by code_simp
  from C1_built_url [OF b] t p q s show ?thesis
    by simp
qed

subsection \<open>The two chains of a run\<close>

lemma succeeded_simps [simp]: "succeeded (r, None)" "\<not> succeeded (r, Some e)"
  by (simp_all add: succeeded_def)

lemma extracted_pair [simp]: "extracted (r, e) = VariablesFromResponse r"
  by (simp add: extracted_def)

lemma handleResponse_frame:
  "handleResponse env r resp = (err, r') \<Longrightarrow>
     same_spec r r' \<and> availableVariables r' = availableVariables r"
  by (auto simp: handleResponse_def same_spec_def split: option.splits if_splits prod.splits)

lemma Do_frame:
  "Do env w r = (err, r', w') \<Longrightarrow> same_spec r r' \<and> availableVariables r' = availableVariables r"
  by (auto simp: Do_def same_spec_def split: sum.splits prod.splits dest!: handleResponse_frame)

lemma Do_attach:
  "Do env w (attach q av) = (err, r', w') \<Longrightarrow> same_spec q r' \<and> availableVariables r' = av"
  by (drule Do_frame) (auto simp: same_spec_def attach_def)

lemma seed_eq:
  "seed h = builtin # map (\<lambda>(key, val). \<lparr>Name = key, From = FromTypeProvided, Value = val\<rparr>) (Variables h)"
proof -
  have "fold (\<lambda>(key, val) av. av @ [\<lparr>Name = key, From = FromTypeProvided, Value = val\<rparr>]) kvs acc
          = acc @ map (\<lambda>(key, val). \<lparr>Name = key, From = FromTypeProvided, Value = val\<rparr>) kvs"
    for kvs acc
    by (induction kvs arbitrary: acc) (auto simp: case_prod_beta)
  then show ?thesis by (simp add: seed_def)
qed

lemma stop_on_error_fail:
  "same_spec q r \<Longrightarrow> availableVariables r = store \<Longrightarrow> stop_on_error store (q # rest) [(r, Some e)]"
  by (simp add: stop_on_error_def)

lemma stop_on_error_Cons:
  assumes "same_spec q r" "availableVariables r = store"
    and "stop_on_error (store @ VariablesFromResponse r) rest new"
  shows "stop_on_error store (q # rest) ((r, None) # new)"
  unfolding stop_on_error_def
proof (intro conjI allI impI)
  from assms(3) show "length ((r, None) # new) \<le> length (q # rest)"
    by (simp add: stop_on_error_def)
next
  fix i assume i: "i < length ((r, None) # new)"
  show "same_spec ((q # rest) ! i) (fst (((r, None) # new) ! i))"
    using assms i by (cases i) (auto simp: stop_on_error_def)
  show "availableVariables (fst (((r, None) # new) ! i))
          = store @ concat (map extracted (take i ((r, None) # new)))"
    using assms i by (cases i) (auto simp: stop_on_error_def)
  assume "snd (((r, None) # new) ! i) \<noteq> None"
  then show "Suc i = length ((r, None) # new)"
    using assms i by (cases i) (auto simp: stop_on_error_def)
next
  assume "length ((r, None) # new) < length (q # rest)"
  with assms(3) show "(r, None) # new \<noteq> []" "snd (last ((r, None) # new)) \<noteq> None"
    by (auto simp: stop_on_error_def)
qed

lemma runRequests_trace:
  "\<exists>new. executed (runRequests env reqs t) = executed t @ new
        \<and> cleaned (runRequests env reqs t) = cleaned t
        \<and> stop_on_error (available t) reqs new
        \<and> available (runRequests env reqs t)
             = available t @ concat (map extracted (filter succeeded new))"
proof (induction reqs arbitrary: t)
  case Nil
  show ?case by (simp add: stop_on_error_def)
next
  case (Cons q rest)
  obtain err r w where d: "Do env (world t) (attach q (available t)) = (err, r, w)"
    by (cases "Do env (world t) (attach q (available t))")
  from Do_attach [OF d] have f: "same_spec q r" "availableVariables r = available t"
    by simp_all
  show ?case
  proof (cases err)
    case (Some e)
    with d f show ?thesis
      by (auto simp: Let_def stop_on_error_fail intro!: exI [of _ "[(r, Some e)]"])
  next
    case None
    let ?t2 = "t\<lparr>world := w,
                  logged := logged t @ [Info (RequestName q) ''executing request''],
                  executed := executed t @ [(r, None)],
                  available := available t @ VariablesFromResponse r\<rparr>"
    have run: "runRequests env (q # rest) t = runRequests env rest ?t2"
      using d None by (simp add: Let_def)
    from Cons.IH [of ?t2] obtain new where
      n: "executed (runRequests env rest ?t2) = executed ?t2 @ new"
         "cleaned (runRequests env rest ?t2) = cleaned ?t2"
         "stop_on_error (available ?t2) rest new"
         "available (runRequests env rest ?t2)
            = available ?t2 @ concat (map extracted (filter succeeded new))"
      by blast
    have "stop_on_error (available t) (q # rest) ((r, None) # new)"
      using f n(3) by (intro stop_on_error_Cons) simp_all
    with n show ?thesis
      unfolding run by (intro exI [of _ "(r, None) # new"]) simp
  qed
qed

lemma run_all_Cons:
  assumes "same_spec q r" "availableVariables r = store" "run_all store rest new lg"
    and "\<And>e. err = Some e \<Longrightarrow>
           Error e ''failed to complete cleanup request'' (RequestName q) \<in> set lg"
  shows "run_all store (q # rest) ((r, err) # new) lg"
  unfolding run_all_def
proof (intro conjI allI impI)
  from assms(3) show "length ((r, err) # new) = length (q # rest)"
    by (simp add: run_all_def)
next
  fix i assume i: "i < length (q # rest)"
  show "same_spec ((q # rest) ! i) (fst (((r, err) # new) ! i))"
    using assms(1,3) i by (cases i) (auto simp: run_all_def)
  show "availableVariables (fst (((r, err) # new) ! i)) = store"
    using assms(2,3) i by (cases i) (auto simp: run_all_def)
  fix e assume "snd (((r, err) # new) ! i) = Some e"
  then show "Error e ''failed to complete cleanup request'' (RequestName ((q # rest) ! i)) \<in> set lg"
    using assms(3,4) i by (cases i) (auto simp: run_all_def)
qed

lemma run_all_mono: "run_all store reqs new lg \<Longrightarrow> run_all store reqs new (pre @ lg)"
  by (auto simp: run_all_def)

lemma runCleanup_trace:
  "\<exists>new more. cleaned (runCleanup env reqs t) = cleaned t @ new
        \<and> executed (runCleanup env reqs t) = executed t
        \<and> available (runCleanup env reqs t) = available t
        \<and> logged (runCleanup env reqs t) = logged t @ more
        \<and> run_all (available t) reqs new more"
proof (induction reqs arbitrary: t)
  case Nil
  show ?case by (simp add: run_all_def)
next
  case (Cons q rest)
  obtain err r w where d: "Do env (world t) (attach q (available t)) = (err, r, w)"
    by (cases "Do env (world t) (attach q (available t))")
  from Do_attach [OF d] have f: "same_spec q r" "availableVariables r = available t"
    by simp_all
  let ?t1 = "t\<lparr>world := w,
                logged := logged t @ [Info (RequestName q) ''executing cleanup request''],
                cleaned := cleaned t @ [(r, err)]\<rparr>"
  let ?t2 = "case err of
               Some e \<Rightarrow> ?t1\<lparr>logged := logged ?t1 @
                   [Error e ''failed to complete cleanup request'' (RequestName q)]\<rparr>
             | None \<Rightarrow> ?t1"
  let ?pre = "Info (RequestName q) ''executing cleanup request'' #
              (case err of Some e \<Rightarrow> [Error e ''failed to complete cleanup request'' (RequestName q)]
               | None \<Rightarrow> [])"
  have run: "runCleanup env (q # rest) t = runCleanup env rest ?t2"
    using d by (simp add: Let_def)
  have t2: "cleaned ?t2 = cleaned t @ [(r, err)]" "executed ?t2 = executed t"
    "available ?t2 = available t" "logged ?t2 = logged t @ ?pre"
    by (simp_all split: option.splits)
  from Cons.IH [of ?t2] obtain new more where
    n: "cleaned (runCleanup env rest ?t2) = cleaned ?t2 @ new"
       "executed (runCleanup env rest ?t2) = executed ?t2"
       "available (runCleanup env rest ?t2) = available ?t2"
       "logged (runCleanup env rest ?t2) = logged ?t2 @ more"
       "run_all (available ?t2) rest new more"
    by blast
  have "run_all (available t) (q # rest) ((r, err) # new) (?pre @ more)"
  proof (rule run_all_Cons [OF f])
    from n(5) t2(3) show "run_all (available t) rest new (?pre @ more)"
      by (simp only: run_all_mono)
  next
    fix e assume "err = Some e"
    then show "Error e ''failed to complete cleanup request'' (RequestName q) \<in> set (?pre @ more)"
      by simp
  qed
  then show ?case
    unfolding run
    by (intro exI [of _ "(r, err) # new"] exI [of _ "?pre @ more"]) (simp add: n t2)
qed

lemma executeRequests_trace:
  assumes "executeRequests env h w = T"
  shows "stop_on_error (seed h) (Requests h) (executed T)"
    and "available T = seed h @ concat (map extracted (filter succeeded (executed T)))"
    and "run_all (available T) (Cleanup h) (cleaned T) (logged T)"
proof -
  let ?m = "runRequests env (Requests h) (start_tick h w)"
  from runRequests_trace [of env "Requests h" "start_tick h w"] obtain new where
    m: "executed ?m = new" "cleaned ?m = []" "stop_on_error (seed h) (Requests h) new"
       "available ?m = seed h @ concat (map extracted (filter succeeded new))"
    by (auto simp: start_tick_def)
  from runCleanup_trace [of env "Cleanup h" ?m] obtain cl more where
    c: "cleaned (runCleanup env (Cleanup h) ?m) = cleaned ?m @ cl"
       "executed (runCleanup env (Cleanup h) ?m) = executed ?m"
       "available (runCleanup env (Cleanup h) ?m) = available ?m"
       "logged (runCleanup env (Cleanup h) ?m) = logged ?m @ more"
       "run_all (available ?m) (Cleanup h) cl more"
    by blast
  from c(5) have r: "run_all (available ?m) (Cleanup h) cl (logged ?m @ more)"
    by (rule run_all_mono)
  have T: "T = runCleanup env (Cleanup h) ?m"
    using assms by (simp add: executeRequests_def)
  show "stop_on_error (seed h) (Requests h) (executed T)"
    unfolding T using m c by simp
  show "available T = seed h @ concat (map extracted (filter succeeded (executed T)))"
    unfolding T using m c by simp
  show "run_all (available T) (Cleanup h) (cleaned T) (logged T)"
    unfolding T using m c r by simp
qed

lemma filter_succeeded_take:
  assumes "Suc k = length tr" "\<forall>i<k. snd (tr ! i) = None" "snd (tr ! k) \<noteq> None"
  shows "filter succeeded tr = take k tr"
proof -
  from assms(1) have tr: "tr = take k tr @ [tr ! k]"
    by (metis lessI take_Suc_conv_app_nth take_all order_refl)
  have "\<forall>a\<in>set (take k tr). succeeded a"
  proof
    fix a assume "a \<in> set (take k tr)"
    then obtain i where "i < k" "a = tr ! i"
      using assms(1) by (auto simp: in_set_conv_nth)
    with assms(2) show "succeeded a"
      by (simp add: succeeded_def)
  qed
  then have "filter succeeded (take k tr) = take k tr"
    by simp
  moreover have "\<not> succeeded (tr ! k)"
    using assms(3) by (simp add: succeeded_def)
  ultimately have "filter succeeded (take k tr @ [tr ! k]) = take k tr"
    by simp
  with tr show ?thesis by simp
qed

lemma first_failure:
  assumes "stop_on_error store reqs tr" "k < length tr" "snd (tr ! k) \<noteq> None"
  shows "Suc k = length tr" "\<forall>i<k. snd (tr ! i) = None" "filter succeeded tr = take k tr"
proof -
  from assms show l: "Suc k = length tr"
    by (simp add: stop_on_error_def)
  show n: "\<forall>i<k. snd (tr ! i) = None"
  proof (intro allI impI, rule ccontr)
    fix i assume "i < k" "snd (tr ! i) \<noteq> None"
    with assms(1,2) have "Suc i = length tr"
      by (simp add: stop_on_error_def)
    with l \<open>i < k\<close> show False by simp
  qed
  from filter_succeeded_take [OF l n assms(3)] show "filter succeeded tr = take k tr" .
qed

lemma cleaned_store:
  assumes "run_all store reqs new lg" "a \<in> set new"
  shows "availableVariables (fst a) = store"
proof -
  from assms(2) obtain i where "i < length new" "a = new ! i"
    by (auto simp: in_set_conv_nth)
  with assms(1) show ?thesis by (simp add: run_all_def)
qed

lemma parseVariables_first_failure:
  assumes "\<forall>u\<in>set pre. snd (parse u resp) = None" "snd (parse v resp) = Some msg"
  shows "parseVariables parse resp (pre @ v # post)
           = (Some (ExtractionError msg), map (\<lambda>u. fst (parse u resp)) pre @ fst (parse v resp) # post)"
  using assms
  by (induction pre) (auto split: prod.splits option.splits)

lemma parseVariables_some_failure:
  "\<exists>v\<in>set vs. snd (parse v resp) \<noteq> None \<Longrightarrow>
     \<exists>msg. fst (parseVariables parse resp vs) = Some (ExtractionError msg)"
proof (induction vs)
  case Nil
  then show ?case by simp
next
  case (Cons a vs)
  obtain a' e where a: "parse a resp = (a', e)" by (cases "parse a resp")
  show ?case
  proof (cases e)
    case None
    with Cons.prems a have "\<exists>v\<in>set vs. snd (parse v resp) \<noteq> None" by auto
    from Cons.IH [OF this] a None show ?thesis
      by (auto split: prod.splits)
  next
    case (Some msg)
    with a show ?thesis by simp
  qed
qed

text \<open>
  Claim C4. When the call for request \<open>k\<close> of the monitoring chain (counted from 0) is
  the one that fails, the calls made are exactly those of the requests up to \<open>k\<close>, in
  order: the requests behind \<open>k\<close> are not executed. The calls before \<open>k\<close> succeeded; the
  store attached to \<open>k\<close> is the seed followed by what they extracted; and the store
  after the chain, which every cleanup request gets, is that same store: nothing that
  \<open>k\<close> parsed is appended.
\<close>

theorem C4_monitoring_stops_at_first_failure:
  assumes "executeRequests env h w = T"
    and "k < length (executed T)"
    and "snd (executed T ! k) \<noteq> None"
  shows "length (executed T) = Suc k \<and> Suc k \<le> length (Requests h)
         \<and> (\<forall>i\<le>k. same_spec (Requests h ! i) (fst (executed T ! i)))
         \<and> (\<forall>i<k. snd (executed T ! i) = None)
         \<and> availableVariables (fst (executed T ! k))
              = seed h @ concat (map extracted (take k (executed T)))
         \<and> available T = availableVariables (fst (executed T ! k))
         \<and> (\<forall>a\<in>set (cleaned T). availableVariables (fst a)
                                      = availableVariables (fst (executed T ! k)))"
proof -
  note s = executeRequests_trace(1) [OF assms(1)]
    and a = executeRequests_trace(2) [OF assms(1)]
    and c = executeRequests_trace(3) [OF assms(1)]
  note f = first_failure [OF s assms(2,3)]
  from s assms(2) have k: "availableVariables (fst (executed T ! k))
              = seed h @ concat (map extracted (take k (executed T)))"
    by (simp add: stop_on_error_def)
  have "length (executed T) = Suc k" using f(1) by simp
  moreover have "Suc k \<le> length (Requests h)"
    using s f(1) by (simp add: stop_on_error_def)
  moreover have "\<forall>i\<le>k. same_spec (Requests h ! i) (fst (executed T ! i))"
    using s f(1) by (simp add: stop_on_error_def)
  moreover have "available T = availableVariables (fst (executed T ! k))"
    using a k f(3) by simp
  moreover from this have "\<forall>a\<in>set (cleaned T). availableVariables (fst a)
                                      = availableVariables (fst (executed T ! k))"
    using cleaned_store [OF c] by simp
  ultimately show ?thesis using f(2) k by blast
qed

text \<open>
  Claim C8. With an accepted status code, \<open>handleResponse\<close> applies the rules in their
  order; if some rule fails the result is an extraction error, that of the first rule
  that fails, and the rules behind it are not applied. In the monitoring chain the
  request that fails so is the last one executed, and the store after it, which the
  cleanup requests get, is the seed followed by what the earlier requests extracted:
  their entries stay and nothing of the failed request enters.
\<close>

theorem C8_failed_extraction_discarded:
  "(StatusCode resp \<in> set (ExpectedResponseCodes r)
      \<and> (\<exists>v\<in>set (VariablesFromResponse r). snd (ParseFromResponse env v resp) \<noteq> None) \<longrightarrow>
      (\<exists>msg. fst (handleResponse env r (Some resp)) = Some (ExtractionError msg)))
   \<and> (StatusCode resp \<in> set (ExpectedResponseCodes r)
        \<and> VariablesFromResponse r = pre @ v # post
        \<and> (\<forall>u\<in>set pre. snd (ParseFromResponse env u resp) = None)
        \<and> snd (ParseFromResponse env v resp) = Some msg \<longrightarrow>
        handleResponse env r (Some resp)
          = (Some (ExtractionError msg),
             r\<lparr>VariablesFromResponse :=
                 map (\<lambda>u. fst (ParseFromResponse env u resp)) pre
                   @ fst (ParseFromResponse env v resp) # post\<rparr>))
   \<and> (executeRequests env h w = T \<and> k < length (executed T)
        \<and> snd (executed T ! k) = Some (ExtractionError msg') \<longrightarrow>
        length (executed T) = Suc k
        \<and> available T = seed h @ concat (map extracted (take k (executed T)))
        \<and> (\<forall>a\<in>set (cleaned T). availableVariables (fst a)
              = seed h @ concat (map extracted (take k (executed T)))))"
proof (intro conjI impI)
  assume "StatusCode resp \<in> set (ExpectedResponseCodes r)
      \<and> (\<exists>v\<in>set (VariablesFromResponse r). snd (ParseFromResponse env v resp) \<noteq> None)"
  then have m: "containsInt (StatusCode resp) (ExpectedResponseCodes r)"
    and e: "\<exists>v\<in>set (VariablesFromResponse r). snd (ParseFromResponse env v resp) \<noteq> None"
    by (simp_all add: containsInt_set)
  from e have "VariablesFromResponse r \<noteq> []" by auto
  with m parseVariables_some_failure
             [of "VariablesFromResponse r" "ParseFromResponse env" resp, OF e]
  show "\<exists>msg. fst (handleResponse env r (Some resp)) = Some (ExtractionError msg)"
    by (auto simp: handleResponse_def split: prod.splits)
next
  assume "StatusCode resp \<in> set (ExpectedResponseCodes r)
        \<and> VariablesFromResponse r = pre @ v # post
        \<and> (\<forall>u\<in>set pre. snd (ParseFromResponse env u resp) = None)
        \<and> snd (ParseFromResponse env v resp) = Some msg"
  then have m: "containsInt (StatusCode resp) (ExpectedResponseCodes r)"
    and v: "VariablesFromResponse r = pre @ v # post"
    and p: "\<forall>u\<in>set pre. snd (ParseFromResponse env u resp) = None"
           "snd (ParseFromResponse env v resp) = Some msg"
    by (simp_all add: containsInt_set)
  from m v parseVariables_first_failure
             [where parse = "ParseFromResponse env" and post = post, OF p]
  show "handleResponse env r (Some resp)
          = (Some (ExtractionError msg),
             r\<lparr>VariablesFromResponse :=
                 map (\<lambda>u. fst (ParseFromResponse env u resp)) pre
                   @ fst (ParseFromResponse env v resp) # post\<rparr>)"
    by (simp add: handleResponse_def)
next
  assume "executeRequests env h w = T \<and> k < length (executed T)
        \<and> snd (executed T ! k) = Some (ExtractionError msg')"
  then have T: "executeRequests env h w = T" and k: "k < length (executed T)"
    and e: "snd (executed T ! k) \<noteq> None"
    by simp_all
  note s = executeRequests_trace(1) [OF T]
    and a = executeRequests_trace(2) [OF T]
    and c = executeRequests_trace(3) [OF T]
  note f = first_failure [OF s k e]
  from f(1) show "length (executed T) = Suc k" by simp
  from a f(3) show av: "available T = seed h @ concat (map extracted (take k (executed T)))"
    by simp
  from cleaned_store [OF c] av
  show "\<forall>a\<in>set (cleaned T). availableVariables (fst a)
              = seed h @ concat (map extracted (take k (executed T)))"
    by simp
qed

text \<open>
  Claim C2, as amended. Every request of the cleanup chain is executed, in order,
  whatever fails; every failure is logged; and every cleanup request gets the same
  store, the one the monitoring chain ended with. What a cleanup request extracts is
  not added to it.
\<close>

theorem C2_cleanup_runs_all:
  assumes "executeRequests env h w = T"
  shows "length (cleaned T) = length (Cleanup h)
         \<and> (\<forall>i<length (Cleanup h).
               same_spec (Cleanup h ! i) (fst (cleaned T ! i))
               \<and> availableVariables (fst (cleaned T ! i))
                    = seed h @ concat (map extracted (filter succeeded (executed T)))
               \<and> (\<forall>e. snd (cleaned T ! i) = Some e \<longrightarrow>
                      Error e ''failed to complete cleanup request'' (RequestName (Cleanup h ! i))
                        \<in> set (logged T)))"
  using executeRequests_trace(3) [OF assms]
  unfolding executeRequests_trace(2) [OF assms]
  by (simp add: run_all_def)

text \<open>
  Claim C3, as amended. The store attached to a request of the monitoring chain is the
  built-in variable, the monitor's variables and what the requests before it in the
  monitoring chain extracted, in this order and nothing else. Every request of the
  cleanup chain gets the store the monitoring chain ended with: the same seed followed
  by what the monitoring requests that succeeded extracted.
\<close>

theorem C3_store_of_request:
  assumes "executeRequests env h w = T"
  shows "(\<forall>i<length (executed T).
            availableVariables (fst (executed T ! i))
              = builtin
                # map (\<lambda>(key, val). \<lparr>Name = key, From = FromTypeProvided, Value = val\<rparr>)
                      (Variables h)
                @ concat (map extracted (take i (executed T))))
         \<and> (\<forall>a\<in>set (cleaned T).
               availableVariables (fst a)
                 = builtin
                   # map (\<lambda>(key, val). \<lparr>Name = key, From = FromTypeProvided, Value = val\<rparr>)
                         (Variables h)
                   @ concat (map extracted (filter succeeded (executed T))))"
proof -
  note s = executeRequests_trace(1) [OF assms]
    and a = executeRequests_trace(2) [OF assms]
    and c = executeRequests_trace(3) [OF assms]
  from s have "\<forall>i<length (executed T).
            availableVariables (fst (executed T ! i))
              = seed h @ concat (map extracted (take i (executed T)))"
    by (simp add: stop_on_error_def)
  moreover from cleaned_store [OF c] a have "\<forall>a\<in>set (cleaned T).
      availableVariables (fst a) = seed h @ concat (map extracted (filter succeeded (executed T)))"
    by simp
  ultimately show ?thesis
    by (simp add: seed_eq)
qed

theorem C4_monitoring_stops_at_first_failure_witness:
  "map (\<lambda>a. RequestName (fst a)) (executed run_stop) = [''A'', ''F'']
   \<and> snd (executed run_stop ! 0) = None
   \<and> snd (executed run_stop ! 1) = Some (UnexpectedStatusError 500 [200])
   \<and> length (executed run_stop) = Suc 1
   \<and> availableVariables (fst (executed run_stop ! 1))
        = seed (monitor [login, get ''F'' ''/fail'' [header_rule ''id'' ''X-Id''],
                         get ''B'' ''/data?auth={{token}}'' []]
                        [get ''Z'' ''/logout'' []])
          @ concat (map extracted (take 1 (executed run_stop)))
   \<and> available run_stop = availableVariables (fst (executed run_stop ! 1))
   \<and> available run_stop = [builtin, host_var, token_var]"
proof -
  have e: "executeRequests env_net
             (monitor [login, get ''F'' ''/fail'' [header_rule ''id'' ''X-Id''],
                       get ''B'' ''/data?auth={{token}}'' []]
                      [get ''Z'' ''/logout'' []]) [] = run_stop"
    by (simp add: run_stop_def)
  have f: "1 < length (executed run_stop) \<and> snd (executed run_stop ! 1) \<noteq> None"
    by code_simp
  have g: "map (\<lambda>a. RequestName (fst a)) (executed run_stop) = [''A'', ''F'']
      \<and> snd (executed run_stop ! 0) = None
      \<and> snd (executed run_stop ! 1) = Some (UnexpectedStatusError 500 [200])
      \<and> available run_stop = [builtin, host_var, token_var]"
    by code_simp
  from f have k: "1 < length (executed run_stop)" and n: "snd (executed run_stop ! 1) \<noteq> None"
    by simp_all
  from C4_monitoring_stops_at_first_failure [OF e k n] g show ?thesis
    by simp
qed

theorem C8_failed_extraction_discarded_witness:
  "handleResponse env_net page (Some ok_response)
     = (Some (ExtractionError ''no header X-Missing''),
        page\<lparr>VariablesFromResponse :=
               [id_var, header_rule ''missing'' ''X-Missing'', header_rule ''again'' ''X-Token'']\<rparr>)
   \<and> snd (executed run_extract ! 1) = Some (ExtractionError ''no header X-Missing'')
   \<and> VariablesFromResponse (fst (executed run_extract ! 1))
        = [id_var, header_rule ''missing'' ''X-Missing'', header_rule ''again'' ''X-Token'']
   \<and> length (executed run_extract) = Suc 1
   \<and> available run_extract = [builtin, host_var, token_var]
   \<and> map (\<lambda>a. availableVariables (fst a)) (cleaned run_extract) = [[builtin, host_var, token_var]]"
proof -
  have h1: "StatusCode ok_response \<in> set (ExpectedResponseCodes page)
      \<and> VariablesFromResponse page
           = [header_rule ''id'' ''X-Id''] @ header_rule ''missing'' ''X-Missing''
               # [header_rule ''again'' ''X-Token'']
      \<and> (\<forall>u\<in>set [header_rule ''id'' ''X-Id''].
             snd (ParseFromResponse env_net u ok_response) = None)
      \<and> snd (ParseFromResponse env_net (header_rule ''missing'' ''X-Missing'') ok_response)
           = Some ''no header X-Missing''"
    by code_simp
  have h2: "executeRequests env_net
              (monitor [login, page, get ''B'' ''/data?auth={{token}}'' []]
                       [get ''Z'' ''/logout'' []]) [] = run_extract"
    by (simp add: run_extract_def)
  have h3: "1 < length (executed run_extract)
      \<and> snd (executed run_extract ! 1) = Some (ExtractionError ''no header X-Missing'')"
    by code_simp
  have ev: "map (\<lambda>u. fst (ParseFromResponse env_net u ok_response)) [header_rule ''id'' ''X-Id'']
              @ fst (ParseFromResponse env_net (header_rule ''missing'' ''X-Missing'') ok_response)
              # [header_rule ''again'' ''X-Token'']
            = [id_var, header_rule ''missing'' ''X-Missing'', header_rule ''again'' ''X-Token'']
      \<and> VariablesFromResponse (fst (executed run_extract ! 1))
           = [id_var, header_rule ''missing'' ''X-Missing'', header_rule ''again'' ''X-Token'']
      \<and> seed (monitor [login, page, get ''B'' ''/data?auth={{token}}'' []]
                       [get ''Z'' ''/logout'' []])
           @ concat (map extracted (take 1 (executed run_extract)))
          = [builtin, host_var, token_var]
      \<and> length (cleaned run_extract) = 1"
    by code_simp
  note th = C8_failed_extraction_discarded
      [where resp = ok_response and r = page and env = env_net
         and pre = "[header_rule ''id'' ''X-Id'']" and v = "header_rule ''missing'' ''X-Missing''"
         and post = "[header_rule ''again'' ''X-Token'']" and msg = "''no header X-Missing''"
         and h = "monitor [login, page, get ''B'' ''/data?auth={{token}}'' []]
                          [get ''Z'' ''/logout'' []]"
         and w = "[]" and T = run_extract and k = 1 and msg' = "''no header X-Missing''"]
  from th h1 have a: "handleResponse env_net page (Some ok_response)
     = (Some (ExtractionError ''no header X-Missing''),
        page\<lparr>VariablesFromResponse :=
               map (\<lambda>u. fst (ParseFromResponse env_net u ok_response)) [header_rule ''id'' ''X-Id'']
              @ fst (ParseFromResponse env_net (header_rule ''missing'' ''X-Missing'') ok_response)
              # [header_rule ''again'' ''X-Token'']\<rparr>)"
    by blast
  from th h2 h3 have b: "length (executed run_extract) = Suc 1
        \<and> available run_extract
             = seed (monitor [login, page, get ''B'' ''/data?auth={{token}}'' []]
                       [get ''Z'' ''/logout'' []])
               @ concat (map extracted (take 1 (executed run_extract)))
        \<and> (\<forall>a\<in>set (cleaned run_extract). availableVariables (fst a)
              = seed (monitor [login, page, get ''B'' ''/data?auth={{token}}'' []]
                       [get ''Z'' ''/logout'' []])
               @ concat (map extracted (take 1 (executed run_extract))))"
    by blast
  obtain c where c: "cleaned run_extract = [c]"
    using ev by (cases "cleaned run_extract") auto
  from a b c ev h3 show ?thesis
    by simp
qed

text \<open>In a cleanup chain whose first request extracts \<open>token\<close> and whose second request
  fails, the third request gets the seed only: \<open>token\<close> is not in its store.\<close>

theorem C2_counterexample:
  "map (\<lambda>a. RequestName (fst a)) (cleaned run_cleanup) = [''A'', ''F'', ''B'']
   \<and> snd (cleaned run_cleanup ! 0) = None
   \<and> extracted (cleaned run_cleanup ! 0) = [token_var]
   \<and> snd (cleaned run_cleanup ! 1) = Some (UnexpectedStatusError 500 [200])
   \<and> availableVariables (fst (cleaned run_cleanup ! 2)) = [builtin, host_var]
   \<and> token_var \<notin> set (availableVariables (fst (cleaned run_cleanup ! 2)))"
  by code_simp

theorem C2_cleanup_runs_all_witness:
  "length (cleaned run_cleanup) = 3
   \<and> same_spec (get ''B'' ''/data?auth={{token}}'' []) (fst (cleaned run_cleanup ! 2))
   \<and> availableVariables (fst (cleaned run_cleanup ! 2)) = [builtin, host_var]
   \<and> snd (cleaned run_cleanup ! 1) = Some (UnexpectedStatusError 500 [200])
   \<and> Error (UnexpectedStatusError 500 [200]) ''failed to complete cleanup request'' ''F''
        \<in> set (logged run_cleanup)"
proof -
  have e: "executeRequests env_net
             (monitor [] [login, get ''F'' ''/fail'' [], get ''B'' ''/data?auth={{token}}'' []]) []
           = run_cleanup"
    by (simp add: run_cleanup_def)
  have ev: "snd (cleaned run_cleanup ! 1) = Some (UnexpectedStatusError 500 [200])
      \<and> seed (monitor [] [login, get ''F'' ''/fail'' [], get ''B'' ''/data?auth={{token}}'' []])
           @ concat (map extracted (filter succeeded (executed run_cleanup)))
          = [builtin, host_var]"
    by code_simp
  note th = C2_cleanup_runs_all [OF e]
  have n: "Cleanup (monitor [] [login, get ''F'' ''/fail'' [], get ''B'' ''/data?auth={{token}}'' []])
             = [login, get ''F'' ''/fail'' [], get ''B'' ''/data?auth={{token}}'' []]"
    by (simp add: monitor_def)
  from th have l: "length (cleaned run_cleanup) = 3"
    by (simp add: n)
  from th [THEN conjunct2, rule_format, of 2]
  have b: "same_spec (get ''B'' ''/data?auth={{token}}'' []) (fst (cleaned run_cleanup ! 2))
      \<and> availableVariables (fst (cleaned run_cleanup ! 2))
          = seed (monitor [] [login, get ''F'' ''/fail'' [], get ''B'' ''/data?auth={{token}}'' []])
           @ concat (map extracted (filter succeeded (executed run_cleanup)))"
    by (simp add: n)
  have rn: "RequestName (get ''F'' ''/fail'' []) = ''F''"
    by (simp add: get_def)
  from th [THEN conjunct2, rule_format, of 1] ev
  have f: "Error (UnexpectedStatusError 500 [200])
        ''failed to complete cleanup request'' ''F'' \<in> set (logged run_cleanup)"
    by (simp add: n rn)
  from l b f ev show ?thesis
    by simp
qed

text \<open>After a monitoring chain that extracts \<open>id\<close>, the second cleanup request gets the
  seed and \<open>id\<close>, but not the \<open>token\<close> that the first cleanup request extracted.\<close>

theorem C3_counterexample:
  "map (\<lambda>a. RequestName (fst a)) (cleaned run_both) = [''A'', ''B'']
   \<and> snd (cleaned run_both ! 0) = None
   \<and> extracted (cleaned run_both ! 0) = [token_var]
   \<and> availableVariables (fst (cleaned run_both ! 1)) = [builtin, host_var, id_var]
   \<and> token_var \<notin> set (availableVariables (fst (cleaned run_both ! 1)))"
  by code_simp

theorem C3_store_of_request_witness:
  "availableVariables (fst (executed run_stop ! 1))
     = builtin # [host_var] @ concat (map extracted (take 1 (executed run_stop)))
   \<and> concat (map extracted (take 1 (executed run_stop))) = [token_var]
   \<and> map (\<lambda>a. availableVariables (fst a)) (cleaned run_both)
       = [[builtin, host_var, id_var], [builtin, host_var, id_var]]"
proof -
  have e1: "executeRequests env_net
             (monitor [login, get ''F'' ''/fail'' [header_rule ''id'' ''X-Id''],
                       get ''B'' ''/data?auth={{token}}'' []]
                      [get ''Z'' ''/logout'' []]) [] = run_stop"
    by (simp add: run_stop_def)
  have e2: "executeRequests env_net
              (monitor [get ''I'' ''/item'' [header_rule ''id'' ''X-Id'']]
                       [login, get ''B'' ''/data?auth={{token}}'' []]) [] = run_both"
    by (simp add: run_both_def)
  have ev: "1 < length (executed run_stop)
      \<and> concat (map extracted (take 1 (executed run_stop))) = [token_var]
      \<and> concat (map extracted (filter succeeded (executed run_both))) = [id_var]
      \<and> length (cleaned run_both) = 2"
    by code_simp
  from C3_store_of_request [OF e1] ev
  have a: "availableVariables (fst (executed run_stop ! 1))
     = builtin # [host_var] @ concat (map extracted (take 1 (executed run_stop)))"
    by (simp add: monitor_def host_var_def)
  from C3_store_of_request [OF e2] ev
  have b: "\<forall>a\<in>set (cleaned run_both). availableVariables (fst a) = [builtin, host_var, id_var]"
    by (simp add: monitor_def host_var_def)
  obtain c1 c2 where c: "cleaned run_both = [c1, c2]"
    using ev by (cases "cleaned run_both"; cases "tl (cleaned run_both)") auto
  from a b c ev show ?thesis
    by simp
qed

subsection \<open>Starting and stopping\<close>

lemma step_never_closed:
  "never_closed s \<Longrightarrow> step e s = Some s' \<Longrightarrow> never_closed s'"
  by (cases e)
     (auto simp: never_closed_def Start_def Stop_ticker_def Wait_returns_def can_call_def
           split: if_splits option.splits sum.splits)

lemma run_never_closed:
  "never_closed s \<Longrightarrow> run es s = Some s' \<Longrightarrow> never_closed s'"
proof (induction es arbitrary: s)
  case Nil
  then show ?case by simp
next
  case (Cons e es)
  then show ?case
    by (auto split: option.splits dest: step_never_closed)
qed

lemma step_started_has_ticker:
  "started_has_ticker s \<Longrightarrow> step e s = Some s' \<Longrightarrow> started_has_ticker s'"
  by (cases e)
     (auto simp: started_has_ticker_def Start_def Stop_ticker_def Wait_returns_def can_call_def
           split: if_splits option.splits sum.splits)

lemma run_started_has_ticker:
  "started_has_ticker s \<Longrightarrow> run es s = Some s' \<Longrightarrow> started_has_ticker s'"
proof (induction es arbitrary: s)
  case Nil
  then show ?case by simp
next
  case (Cons e es)
  then show ?case
    by (auto split: option.splits dest: step_started_has_ticker)
qed

text \<open>
  Claim C9 says that \<open>Stop\<close> blocks the caller until the tick in flight completes and
  then returns. In no run of a monitor does \<open>Stop\<close> return: stopping the ticker does not
  close its channel, so the worker's loop never ends, \<open>Done\<close> is never called and the
  counter that \<open>Wait\<close> waits for stays at one.
\<close>

theorem C9_stop_never_returns:
  "run es (new_monitor d) = Some s \<longrightarrow> caller s \<noteq> StopReturned"
proof
  assume r: "run es (new_monitor d) = Some s"
  have "never_closed (new_monitor d)"
    by (simp add: never_closed_def new_monitor_def)
  from run_never_closed [OF this r] show "caller s \<noteq> StopReturned"
    by (simp add: never_closed_def)
qed

theorem C9_stop_never_returns_witness:
  "\<exists>s. run stop_schedule (new_monitor 5) = Some s
       \<and> caller s = InStopWait \<and> caller s \<noteq> StopReturned
       \<and> worker (mon s) = AwaitingTick
       \<and> list_all (\<lambda>e. step e s = None)
           [CallStart, CallStop, StopReturns, TimerFires, WorkerReceives, TickDone, RangeEnds]"
proof -
  obtain s where s: "run stop_schedule (new_monitor 5) = Some s"
    by (simp add: stop_schedule_def new_monitor_def Start_def Stop_ticker_def can_call_def)
  then have "s = \<lparr>mon = \<lparr>period = 5,
                         ticker = Some \<lparr>active = False, buffered = 0, closed = False\<rparr>,
                         stopped = Some 1, worker = AwaitingTick\<rparr>,
                  caller = InStopWait\<rparr>"
    by (simp add: stop_schedule_def new_monitor_def Start_def Stop_ticker_def can_call_def)
  then have "caller s = InStopWait \<and> worker (mon s) = AwaitingTick
       \<and> list_all (\<lambda>e. step e s = None)
           [CallStart, CallStop, StopReturns, TimerFires, WorkerReceives, TickDone, RangeEnds]"
    by (simp add: can_call_def Wait_returns_def)
  with s C9_stop_never_returns [of stop_schedule 5 s] show ?thesis
    by blast
qed

text \<open>\<open>Start\<close> on a monitor that was never started panics when its period is zero, and
  \<open>Stop\<close> panics on a monitor that was never started.\<close>

theorem C10_counterexample:
  "Start (mon (new_monitor 0)) = Inl ''non-positive interval for NewTicker''
   \<and> worker (mon (new_monitor 0)) = NotLaunched
   \<and> Stop_ticker (mon (new_monitor 60)) = Inl ''invalid memory address or nil pointer dereference''
   \<and> worker (mon (new_monitor 60)) = NotLaunched"
  by (simp add: Start_def Stop_ticker_def new_monitor_def)

text \<open>
  Claim C10, as amended. \<open>Start\<close> on a monitor whose worker has been launched panics,
  whether its ticker is still active or has been stopped; this panic of the file's own
  is raised in no other case. \<open>Start\<close> panics at all exactly when there is a ticker
  already or the period is not positive, and the first statement of \<open>Stop\<close> panics
  exactly when there is no ticker.
\<close>

theorem C10_panics_of_Start_and_Stop:
  "(run es (new_monitor d) = Some s \<and> worker (mon s) \<noteq> NotLaunched \<longrightarrow>
      Start (mon s) = Inl ''tried to start an already started HttpMonitor'')
   \<and> ((Start h = Inl ''tried to start an already started HttpMonitor'') = (ticker h \<noteq> None))
   \<and> ((\<exists>msg. Start h = Inl msg) = (ticker h \<noteq> None \<or> period h \<le> 0))
   \<and> ((\<exists>msg. Stop_ticker h = Inl msg) = (ticker h = None))"
proof (intro conjI impI)
  assume a: "run es (new_monitor d) = Some s \<and> worker (mon s) \<noteq> NotLaunched"
  have "started_has_ticker (new_monitor d)"
    by (simp add: started_has_ticker_def new_monitor_def)
  from run_started_has_ticker [OF this] a have "ticker (mon s) \<noteq> None"
    by (auto simp: started_has_ticker_def)
  then show "Start (mon s) = Inl ''tried to start an already started HttpMonitor''"
    by (simp add: Start_def)
next
  show "(Start h = Inl ''tried to start an already started HttpMonitor'') = (ticker h \<noteq> None)"
    by (auto simp: Start_def)
next
  show "(\<exists>msg. Start h = Inl msg) = (ticker h \<noteq> None \<or> period h \<le> 0)"
    by (auto simp: Start_def)
next
  show "(\<exists>msg. Stop_ticker h = Inl msg) = (ticker h = None)"
    by (auto simp: Stop_ticker_def split: option.splits)
qed

theorem C10_panics_of_Start_and_Stop_witness:
  "run [CallStart, TimerFires] (new_monitor 60)
     = Some \<lparr>mon = \<lparr>period = 60,
                     ticker = Some \<lparr>active = True, buffered = 1, closed = False\<rparr>,
                     stopped = Some 1, worker = AwaitingTick\<rparr>,
              caller = Ready\<rparr>
   \<and> Start \<lparr>period = 60, ticker = Some \<lparr>active = True, buffered = 1, closed = False\<rparr>,
             stopped = Some 1, worker = AwaitingTick\<rparr>
        = Inl ''tried to start an already started HttpMonitor''
   \<and> run [CallStart, TimerFires, CallStart] (new_monitor 60)
        = Some \<lparr>mon = \<lparr>period = 60,
                        ticker = Some \<lparr>active = True, buffered = 1, closed = False\<rparr>,
                        stopped = Some 1, worker = AwaitingTick\<rparr>,
                 caller = Panicked ''tried to start an already started HttpMonitor''\<rparr>"
proof -
  have r: "run [CallStart, TimerFires] (new_monitor 60)
     = Some \<lparr>mon = \<lparr>period = 60,
                     ticker = Some \<lparr>active = True, buffered = 1, closed = False\<rparr>,
                     stopped = Some 1, worker = AwaitingTick\<rparr>,
              caller = Ready\<rparr>"
    by (simp add: new_monitor_def Start_def can_call_def)
  have q: "run [CallStart, TimerFires, CallStart] (new_monitor 60)
        = Some \<lparr>mon = \<lparr>period = 60,
                        ticker = Some \<lparr>active = True, buffered = 1, closed = False\<rparr>,
                        stopped = Some 1, worker = AwaitingTick\<rparr>,
                 caller = Panicked ''tried to start an already started HttpMonitor''\<rparr>"
    by (simp add: new_monitor_def Start_def can_call_def)
  from C10_panics_of_Start_and_Stop
         [of "[CallStart, TimerFires]" 60
             "\<lparr>mon = \<lparr>period = 60,
                     ticker = Some \<lparr>active = True, buffered = 1, closed = False\<rparr>,
                     stopped = Some 1, worker = AwaitingTick\<rparr>,
              caller = Ready\<rparr>"] r q
  show ?thesis by simp
qed

end
